theory Spec2Isabelle
  imports Main
begin

section \<open>Data model of package flow\<close>

text \<open>
  The embedding follows \<^verbatim>\<open>pkg/flow/flow.go\<close>. The packages that file imports
  (\<^verbatim>\<open>controller\<close>, \<^verbatim>\<open>dag\<close>, \<^verbatim>\<open>logging\<close>, \<^verbatim>\<open>diag\<close>, \<^verbatim>\<open>component\<close>) are not among
  the sources. Their data is modelled by the small records below; their behaviour is
  either modelled from the specification (and marked so) or taken as a parameter
  (record \<open>deps\<close>).
\<close>

type_synonym NodeID = string

text \<open>Time stamps (\<^verbatim>\<open>time.Time\<close>) are opaque; a natural number stands for one.\<close>

type_synonym Time = nat

text \<open>
  Modelled from the spec: the health of a component (\<^verbatim>\<open>component.Health\<close> is missing):
  one of Unknown, Healthy, Unhealthy, Exited, with a time stamp and a message; the states
  are serialised as the strings "unknown", "healthy", "unhealthy", "exited".
\<close>

datatype HealthType = HealthTypeUnknown | HealthTypeHealthy | HealthTypeUnhealthy | HealthTypeExited

fun HealthType_String :: "HealthType \<Rightarrow> string" where
  "HealthType_String HealthTypeUnknown = ''unknown''"
| "HealthType_String HealthTypeHealthy = ''healthy''"
| "HealthType_String HealthTypeUnhealthy = ''unhealthy''"
| "HealthType_String HealthTypeExited = ''exited''"

record component_Health =
  health :: HealthType
  message :: string
  updateTime :: Time

text \<open>
  Modelled from the spec: \<^verbatim>\<open>controller.ComponentNode\<close> is missing. A node carries its
  NodeID, the component type name, the user-chosen label, its current health, its current
  arguments and its current exports. Each field stands for the getter of the same name
  (\<^verbatim>\<open>NodeID()\<close>, \<^verbatim>\<open>Label()\<close>, \<^verbatim>\<open>ComponentName()\<close>, \<^verbatim>\<open>CurrentHealth()\<close>); arguments
  and exports are opaque values, here their textual form.
\<close>

record ComponentNode =
  nodeID :: NodeID
  label :: string
  componentName :: string
  currentHealth :: component_Health
  currentArguments :: string
  currentExports :: string

text \<open>\<^verbatim>\<open>dag.Edge\<close>: an edge of the graph, between two nodes.\<close>

record Edge =
  From :: ComponentNode
  To :: ComponentNode

text \<open>\<^verbatim>\<open>ComponentHealth\<close> and \<^verbatim>\<open>ComponentInfo\<close>, as declared in flow.go. A
  \<^verbatim>\<open>json.RawMessage\<close> is a byte string, \<open>[]\<close> when nil; the pointer \<^verbatim>\<open>*ComponentHealth\<close>
  is an option.\<close>

record ComponentHealth =
  State :: string
  Message :: string
  UpdatedTime :: Time

record ComponentInfo =
  Name :: string
  Type :: string
  ID :: string
  Label :: string
  References :: "string list"
  ReferencedBy :: "string list"
  Health :: "ComponentHealth option"
  Original :: string
  Arguments :: string
  Exports :: string
  DebugInfo :: string

subsection \<open>Logging and diagnostics\<close>

text \<open>
  \<^verbatim>\<open>logging.Logger\<close>, \<^verbatim>\<open>logging.Options\<close> and \<^verbatim>\<open>io.Writer\<close> are opaque to flow.go. A
  logger is identified by the writer and the options it was built from; what
  \<^verbatim>\<open>logging.New\<close> and \<^verbatim>\<open>Logger.Update\<close> return is a parameter (record \<open>deps\<close>).
\<close>

datatype Writer = Discard | Stderr

record LoggingOptions =
  Level :: string
  Format :: string

record Logger =
  writer :: Writer
  loggerOptions :: LoggingOptions

text \<open>
  Modelled from the spec: package \<^verbatim>\<open>diag\<close> is missing. The specification speaks of
  diagnostics that are collected and returned in aggregate, and says no more. A
  diagnostic here carries a severity and a message, and the two methods that flow.go
  calls have the meaning of their names: \<^verbatim>\<open>HasErrors\<close> reports whether some diagnostic
  has severity error, and \<^verbatim>\<open>ErrorOrNil\<close> is nil for the empty list and the list itself,
  as an error, otherwise.
\<close>

datatype Severity = SeverityLevelWarn | SeverityLevelError

record Diagnostic =
  severity :: Severity
  diagMessage :: string

type_synonym Diagnostics = "Diagnostic list"

text \<open>The values of Go's \<^verbatim>\<open>error\<close> that LoadFile returns; nil is \<open>None\<close>. The error of
  the scheduler, which Close returns, is opaque: a string.\<close>

datatype error =
    ErrUpdatingLogger string
  | DiagnosticsError Diagnostics

definition HasErrors :: "Diagnostics \<Rightarrow> bool" where
  "HasErrors ds = list_ex (\<lambda>d. severity d = SeverityLevelError) ds"

definition ErrorOrNil :: "Diagnostics \<Rightarrow> error option" where
  "ErrorOrNil ds = (if ds = [] then None else Some (DiagnosticsError ds))"

subsection \<open>Channels\<close>

text \<open>
  A \<^verbatim>\<open>chan struct{}\<close>: only the number of buffered elements, the capacity and whether
  the channel is closed matter. \<open>trySend\<close> is the statement
  \<^verbatim>\<open>select { case ch <- struct{}{}: default: }\<close>.
\<close>

record Chan =
  buffered :: nat
  capacity :: nat
  closed :: bool

definition makeChan :: "nat \<Rightarrow> Chan" where
  "makeChan n = \<lparr>buffered = 0, capacity = n, closed = False\<rparr>"

definition trySend :: "Chan \<Rightarrow> Chan" where
  "trySend ch = (if buffered ch < capacity ch then ch\<lparr>buffered := Suc (buffered ch)\<rparr> else ch)"

definition canRecv :: "Chan \<Rightarrow> bool" where
  "canRecv ch = (0 < buffered ch \<or> closed ch)"

definition recv :: "Chan \<Rightarrow> Chan" where
  "recv ch = ch\<lparr>buffered := buffered ch - 1\<rparr>"

definition closeChan :: "Chan \<Rightarrow> Chan" where
  "closeChan ch = ch\<lparr>closed := True\<rparr>"

subsection \<open>Queue, Loader, Scheduler\<close>

text \<open>
  Modelled from the spec: \<^verbatim>\<open>controller.Queue\<close> is missing. A coalescing FIFO of
  component nodes: Enqueue adds a node unless it is already present and signals the
  notification channel without blocking; TryDequeue returns one node, or nil when the
  queue is empty. Nodes are identified by their NodeID.
\<close>

record Queue =
  queued :: "ComponentNode list"
  updateCh :: Chan

definition NewQueue :: Queue where
  "NewQueue = \<lparr>queued = [], updateCh = makeChan 1\<rparr>"

definition Enqueue :: "ComponentNode \<Rightarrow> Queue \<Rightarrow> Queue" where
  "Enqueue c q =
     (if nodeID c \<in> nodeID ` set (queued q) then q
      else q\<lparr>queued := queued q @ [c], updateCh := trySend (updateCh q)\<rparr>)"

definition TryDequeue :: "Queue \<Rightarrow> ComponentNode option \<times> Queue" where
  "TryDequeue q =
     (case queued q of
        [] \<Rightarrow> (None, q)
      | c # cs \<Rightarrow> (Some c, q\<lparr>queued := cs\<rparr>))"

text \<open>
  Modelled from the spec: \<^verbatim>\<open>controller.Loader\<close> is missing. The loader owns the graph;
  flow.go reads its components (\<^verbatim>\<open>Components()\<close>) and the edges of its original graph
  (\<^verbatim>\<open>OriginalGraph().Edges()\<close>).
\<close>

record Loader =
  components :: "ComponentNode list"
  originalGraph :: "Edge list"

definition NewLoader :: Loader where
  "NewLoader = \<lparr>components = [], originalGraph = []\<rparr>"

text \<open>
  Modelled from the spec: \<^verbatim>\<open>controller.Scheduler\<close> is missing. The scheduler owns one
  worker per running node.
\<close>

record Scheduler =
  running :: "ComponentNode list"

definition NewScheduler :: Scheduler where
  "NewScheduler = \<lparr>running = []\<rparr>"

type_synonym BlockStmt = string

text \<open>\<^verbatim>\<open>flow.File\<close>: LoadFile reads its logging section and its component blocks.\<close>

record File =
  Logging :: LoggingOptions
  Components :: "BlockStmt list"

text \<open>
  The behaviour of the missing packages that flow.go calls and that the specification
  does not fix, as parameters:
  \<^item> \<open>loggingNew w lo\<close> is \<^verbatim>\<open>logging.New(w, lo)\<close>, \<open>DefaultOptions\<close> is
    \<^verbatim>\<open>logging.DefaultOptions\<close>;
  \<^item> \<open>logUpdate lg lo\<close> is the error of \<^verbatim>\<open>lg.Update(lo)\<close>;
  \<^item> \<open>Apply l blocks\<close> is \<^verbatim>\<open>l.Apply(nil, blocks)\<close>: the diagnostics, the loader after,
    and the nodes whose exports changed during the call, for each of which the
    \<^verbatim>\<open>OnExportsChange\<close> callback of the loader's globals was called;
  \<^item> \<open>EvaluateDependencies l n\<close> is \<^verbatim>\<open>l.EvaluateDependencies(nil, n)\<close>: the loader after,
    and the nodes whose exports changed during the call, likewise;
  \<^item> \<open>Synchronize s rs\<close> is \<^verbatim>\<open>s.Synchronize(rs)\<close> and \<open>SchedClose s\<close> is \<^verbatim>\<open>s.Close()\<close>:
    the error and the scheduler after.
\<close>

record deps =
  loggingNew :: "Writer \<Rightarrow> LoggingOptions \<Rightarrow> string + Logger"
  DefaultOptions :: LoggingOptions
  logUpdate :: "Logger \<Rightarrow> LoggingOptions \<Rightarrow> string option"
  Apply :: "Loader \<Rightarrow> BlockStmt list \<Rightarrow> Diagnostics \<times> Loader \<times> ComponentNode list"
  EvaluateDependencies :: "Loader \<Rightarrow> ComponentNode \<Rightarrow> Loader \<times> ComponentNode list"
  Synchronize :: "Scheduler \<Rightarrow> ComponentNode list \<Rightarrow> string option \<times> Scheduler"
  SchedClose :: "Scheduler \<Rightarrow> string option \<times> Scheduler"

subsection \<open>The controller\<close>

text \<open>\<^verbatim>\<open>Options\<close>; the pointer \<^verbatim>\<open>*logging.Logger\<close> may be nil. The registerer is opaque.\<close>

record Options =
  optLogger :: "Logger option"
  DataPath :: string
  Reg :: nat
  HTTPListenAddr :: string

text \<open>
  \<^verbatim>\<open>Flow\<close>. The fields are those of the Go struct, with
  \<^item> \<open>cancelled\<close>: whether \<^verbatim>\<open>c.cancel\<close> has been called, that is whether the context
    handed to \<^verbatim>\<open>run\<close> is done;
  \<^item> the lock \<^verbatim>\<open>loadMut\<close> left out: LoadFile and ComponentInfos are single steps;
  \<^item> three history fields that record calls, for stating properties: the nodes
    TryDequeue handed to the event loop (\<open>dequeued\<close>), the nodes EvaluateDependencies
    was called on (\<open>evaluated\<close>), and the arguments of the calls of Synchronize
    (\<open>synchronized\<close>).
\<close>

record Flow =
  log :: "Logger option"
  opts :: Options
  updateQueue :: Queue
  sched :: Scheduler
  loader :: Loader
  cancelled :: bool
  exited :: Chan
  loadFinished :: Chan
  loadedOnce :: bool
  dequeued :: "ComponentNode list"
  evaluated :: "ComponentNode list"
  synchronized :: "ComponentNode list list"

text \<open>A Go panic: a nil logger dereferenced, or the \<^verbatim>\<open>panic(err)\<close> of newFlow.\<close>

datatype panic = NilLogger | LoggerInit string

section \<open>ComponentInfos\<close>

text \<open>The loop of newFromNode over the edges, with its two accumulators.\<close>

fun collectEdges ::
  "ComponentNode \<Rightarrow> Edge list \<Rightarrow> string list \<times> string list \<Rightarrow> string list \<times> string list" where
  "collectEdges cn [] (references, referencedBy) = (references, referencedBy)"
| "collectEdges cn (e # es) (references, referencedBy) =
     (if nodeID (From e) = nodeID cn
        then collectEdges cn es (references @ [nodeID (To e)], referencedBy)
      else if nodeID (To e) = nodeID cn
        then collectEdges cn es (references, referencedBy @ [nodeID (From e)])
      else collectEdges cn es (references, referencedBy))"

definition newFromNode :: "ComponentNode \<Rightarrow> Edge list \<Rightarrow> ComponentInfo" where
  "newFromNode cn edges =
     (let (references, referencedBy) = collectEdges cn edges ([], []);
          h = currentHealth cn
      in \<lparr>Name = componentName cn,
          Type = ''block'',
          ID = nodeID cn,
          Label = label cn,
          References = references,
          ReferencedBy = referencedBy,
          Health = Some \<lparr>State = HealthType_String (health h),
                         Message = message h,
                         UpdatedTime = updateTime h\<rparr>,
          Original = [],
          Arguments = [],
          Exports = [],
          DebugInfo = []\<rparr>)"

definition ComponentInfos :: "Flow \<Rightarrow> ComponentInfo list" where
  "ComponentInfos c =
     (let cns = components (loader c);
          edges = originalGraph (loader c)
      in map (\<lambda>com. newFromNode com edges) cns)"

section \<open>Construction\<close>

text \<open>
  The \<^verbatim>\<open>OnExportsChange\<close> callback that newFlow installs in the component globals:
  \<^verbatim>\<open>func(cn *controller.ComponentNode) { queue.Enqueue(cn) }\<close>, where \<^verbatim>\<open>queue\<close> is the
  controller's update queue.
\<close>

definition OnExportsChange :: "ComponentNode \<Rightarrow> Flow \<Rightarrow> Flow" where
  "OnExportsChange cn c = c\<lparr>updateQueue := Enqueue cn (updateQueue c)\<rparr>"

text \<open>newFlow; the context it returns is the fresh one that \<open>cancelled\<close> describes.\<close>

definition newFlow :: "deps \<Rightarrow> Options \<Rightarrow> panic + Flow" where
  "newFlow d opt =
     (case (case optLogger opt of
              Some lg \<Rightarrow> Inr lg
            | None \<Rightarrow>
                (case loggingNew d Discard (DefaultOptions d) of
                   Inl err \<Rightarrow> Inl (LoggerInit err)
                 | Inr lg \<Rightarrow> Inr lg)) of
        Inl p \<Rightarrow> Inl p
      | Inr lg \<Rightarrow>
          Inr \<lparr>log = Some lg,
               opts = opt,
               updateQueue = NewQueue,
               sched = NewScheduler,
               loader = NewLoader,
               cancelled = False,
               exited = makeChan 1,
               loadFinished = makeChan 1,
               loadedOnce = False,
               dequeued = [],
               evaluated = [],
               synchronized = []\<rparr>)"

section \<open>LoadFile\<close>

definition LoadFile :: "deps \<Rightarrow> File \<Rightarrow> Flow \<Rightarrow> panic + (error option \<times> Flow)" where
  "LoadFile d file c =
     (case log c of
        None \<Rightarrow> Inl NilLogger
      | Some lg \<Rightarrow>
          (case logUpdate d lg (Logging file) of
             Some err \<Rightarrow> Inr (Some (ErrUpdatingLogger err), c)
           | None \<Rightarrow>
               (let (diags, l', changed) = Apply d (loader c) (Components file);
                    c1 = fold OnExportsChange changed (c\<lparr>loader := l'\<rparr>)
                in if \<not> loadedOnce c1 \<and> HasErrors diags
                   then Inr (Some (DiagnosticsError diags), c1)
                   else let c2 = c1\<lparr>loadedOnce := True\<rparr>;
                            c3 = c2\<lparr>loadFinished := trySend (loadFinished c2)\<rparr>
                        in Inr (ErrorOrNil diags, c3))))"

section \<open>The event loop\<close>

text \<open>
  The body of the inner loop of \<^verbatim>\<open>run\<close> for a dequeued node: the debug log line, then
  EvaluateDependencies, during which the loader may call OnExportsChange.
\<close>

definition handleUpdated :: "deps \<Rightarrow> ComponentNode \<Rightarrow> Flow \<Rightarrow> panic + Flow" where
  "handleUpdated d updated c =
     (case log c of
        None \<Rightarrow> Inl NilLogger
      | Some lg \<Rightarrow>
          (let (l', changed) = EvaluateDependencies d (loader c) updated;
               c1 = c\<lparr>loader := l', evaluated := evaluated c @ [updated]\<rparr>
           in Inr (fold OnExportsChange changed c1)))"

text \<open>
  The inner loop: pop everything from the queue and evaluate each node. The loop ends
  when TryDequeue returns nil; it need not end when evaluations keep enqueueing nodes,
  so it is a partial function, \<open>None\<close> when it does not return.
\<close>

partial_function (option) drain :: "deps \<Rightarrow> Flow \<Rightarrow> (panic + Flow) option" where
  "drain d c =
     (case TryDequeue (updateQueue c) of
        (None, q) \<Rightarrow> Some (Inr (c\<lparr>updateQueue := q\<rparr>))
      | (Some updated, q) \<Rightarrow>
          (case handleUpdated d updated
                  (c\<lparr>updateQueue := q, dequeued := dequeued c @ [updated]\<rparr>) of
             Inl p \<Rightarrow> Some (Inl p)
           | Inr c' \<Rightarrow> drain d c'))"

text \<open>The three cases of the select statement of \<^verbatim>\<open>run\<close>, and when each can be taken.\<close>

datatype event = CtxDone | UpdateQueueChan | LoadFinishedChan

fun ready :: "event \<Rightarrow> Flow \<Rightarrow> bool" where
  "ready CtxDone c = cancelled c"
| "ready UpdateQueueChan c = canRecv (updateCh (updateQueue c))"
| "ready LoadFinishedChan c = canRecv (loadFinished c)"

datatype loop_pc = Running | Exited

text \<open>
  One iteration of the outer loop of \<^verbatim>\<open>run\<close>, the select statement having chosen the
  case \<open>e\<close>. On \<^verbatim>\<open>ctx.Done()\<close> the function returns and its deferred calls run: the
  debug log line, then \<^verbatim>\<open>close(c.exited)\<close>.
\<close>

fun run_select :: "deps \<Rightarrow> event \<Rightarrow> Flow \<Rightarrow> (panic + loop_pc \<times> Flow) option" where
  "run_select d CtxDone c =
     (case log c of
        None \<Rightarrow> Some (Inl NilLogger)
      | Some lg \<Rightarrow> Some (Inr (Exited, c\<lparr>exited := closeChan (exited c)\<rparr>)))"
| "run_select d UpdateQueueChan c =
     (case drain d (c\<lparr>updateQueue := (updateQueue c)\<lparr>updateCh := recv (updateCh (updateQueue c))\<rparr>\<rparr>) of
        None \<Rightarrow> None
      | Some (Inl p) \<Rightarrow> Some (Inl p)
      | Some (Inr c') \<Rightarrow> Some (Inr (Running, c')))"
| "run_select d LoadFinishedChan c =
     (case log c of
        None \<Rightarrow> Some (Inl NilLogger)
      | Some lg \<Rightarrow>
          (let c1 = c\<lparr>loadFinished := recv (loadFinished c)\<rparr>;
               cns = components (loader c1);
               runnables = cns;
               (err, s') = Synchronize d (sched c1) runnables
           in Some (Inr (Running,
                c1\<lparr>sched := s', synchronized := synchronized c1 @ [runnables]\<rparr>))))"

section \<open>Close\<close>

text \<open>The three statements of Close: \<^verbatim>\<open>c.cancel()\<close>, \<^verbatim>\<open><-c.exited\<close> (which can be taken
  when \<open>canRecv (exited c)\<close>), and \<^verbatim>\<open>return c.sched.Close()\<close>.\<close>

definition Close_cancel :: "Flow \<Rightarrow> Flow" where
  "Close_cancel c = c\<lparr>cancelled := True\<rparr>"

definition Close_recvExited :: "Flow \<Rightarrow> Flow" where
  "Close_recvExited c = c\<lparr>exited := recv (exited c)\<rparr>"

definition Close_schedClose :: "deps \<Rightarrow> Flow \<Rightarrow> string option \<times> Flow" where
  "Close_schedClose d c = (let (err, s') = SchedClose d (sched c) in (err, c\<lparr>sched := s'\<rparr>))"

section \<open>The running system\<close>

text \<open>
  New starts \<^verbatim>\<open>run\<close> in a goroutine of its own; LoadFile, ComponentInfos and Close are
  called from other goroutines, and workers call OnExportsChange. The system is the
  controller, the state of the event loop, and one program counter for every call of
  Close in progress. A step is one action of one goroutine; the actions interleave.
  ComponentInfos only reads the controller and is no step. An iteration of the event
  loop is one step: what workers enqueue while the loop drains the queue is enqueued
  before or after that step.
\<close>

datatype close_pc = AtCancel | AtRecvExited | AtSchedClose | Returned "string option"

record System =
  flow :: Flow
  loop :: loop_pc
  closers :: "close_pc list"

definition New :: "deps \<Rightarrow> Options \<Rightarrow> panic + System" where
  "New d opt =
     (case newFlow d opt of
        Inl p \<Rightarrow> Inl p
      | Inr c \<Rightarrow> Inr \<lparr>flow = c, loop = Running, closers = []\<rparr>)"

datatype action =
    CallLoadFile File "error option"
  | ExportsChanged ComponentNode
  | Select event
  | CallClose
  | CloseCancel nat
  | CloseRecvExited nat
  | CloseSchedClose nat

inductive step :: "deps \<Rightarrow> System \<Rightarrow> action \<Rightarrow> System \<Rightarrow> bool" for d :: deps where
  load_file:
    "LoadFile d file (flow s) = Inr (err, c') \<Longrightarrow>
     step d s (CallLoadFile file err) (s\<lparr>flow := c'\<rparr>)"
| exports_changed:
    "step d s (ExportsChanged cn) (s\<lparr>flow := OnExportsChange cn (flow s)\<rparr>)"
| select:
    "loop s = Running \<Longrightarrow> ready e (flow s) \<Longrightarrow>
     run_select d e (flow s) = Some (Inr (pc', c')) \<Longrightarrow>
     step d s (Select e) (s\<lparr>flow := c', loop := pc'\<rparr>)"
| call_close:
    "step d s CallClose (s\<lparr>closers := closers s @ [AtCancel]\<rparr>)"
| close_cancel:
    "i < length (closers s) \<Longrightarrow> closers s ! i = AtCancel \<Longrightarrow>
     step d s (CloseCancel i)
       (s\<lparr>flow := Close_cancel (flow s), closers := (closers s)[i := AtRecvExited]\<rparr>)"
| close_recv_exited:
    "i < length (closers s) \<Longrightarrow> closers s ! i = AtRecvExited \<Longrightarrow>
     canRecv (exited (flow s)) \<Longrightarrow>
     step d s (CloseRecvExited i)
       (s\<lparr>flow := Close_recvExited (flow s), closers := (closers s)[i := AtSchedClose]\<rparr>)"
| close_sched_close:
    "i < length (closers s) \<Longrightarrow> closers s ! i = AtSchedClose \<Longrightarrow>
     Close_schedClose d (flow s) = (err, c') \<Longrightarrow>
     step d s (CloseSchedClose i)
       (s\<lparr>flow := c', closers := (closers s)[i := Returned err]\<rparr>)"

inductive reachable :: "deps \<Rightarrow> Options \<Rightarrow> System \<Rightarrow> bool" for d :: deps and opt :: Options where
  init: "New d opt = Inr s \<Longrightarrow> reachable d opt s"
| after: "reachable d opt s \<Longrightarrow> step d s a s' \<Longrightarrow> reachable d opt s'"

text \<open>Any number of steps.\<close>

inductive steps :: "deps \<Rightarrow> System \<Rightarrow> System \<Rightarrow> bool" for d :: deps where
  none: "steps d s s"
| more: "steps d s s' \<Longrightarrow> step d s' a s'' \<Longrightarrow> steps d s s''"

section \<open>Example inputs\<close>

text \<open>Concrete nodes, collaborators and controller states, on which the theorems below
  are instantiated.\<close>

definition ex_file_a :: ComponentNode where
  "ex_file_a =
     \<lparr>nodeID = ''local.file.a'', label = ''a'', componentName = ''local.file'',
      currentHealth = \<lparr>health = HealthTypeHealthy, message = ''ok'', updateTime = 7\<rparr>,
      currentArguments = ''filename=x'', currentExports = ''content=1''\<rparr>"

definition ex_file_a2 :: ComponentNode where
  "ex_file_a2 = ex_file_a\<lparr>currentArguments := ''filename=y'', currentExports := ''content=2''\<rparr>"

definition ex_scrape_b :: ComponentNode where
  "ex_scrape_b =
     \<lparr>nodeID = ''prometheus.scrape.b'', label = ''b'', componentName = ''prometheus.scrape'',
      currentHealth = \<lparr>health = HealthTypeUnknown, message = [], updateTime = 0\<rparr>,
      currentArguments = ''targets=local.file.a.content'', currentExports = []\<rparr>"

text \<open>The graph of the two nodes: the scrape job reads the file's exports.\<close>

definition ex_graph :: "Edge list" where
  "ex_graph = [\<lparr>From = ex_scrape_b, To = ex_file_a\<rparr>]"

definition ex_loader :: Loader where
  "ex_loader = \<lparr>components = [ex_file_a, ex_scrape_b], originalGraph = ex_graph\<rparr>"

text \<open>
  Example collaborators. The logger accepts every format but \<open>''bad''\<close>. A block is the
  NodeID of a node to load, except that the block \<open>''error''\<close> yields a diagnostic of
  severity error. Evaluations change no exports; the scheduler runs what it is given.
\<close>

definition ex_node :: "BlockStmt \<Rightarrow> ComponentNode" where
  "ex_node b =
     \<lparr>nodeID = b, label = b, componentName = ''local.file'',
      currentHealth = \<lparr>health = HealthTypeUnknown, message = [], updateTime = 0\<rparr>,
      currentArguments = [], currentExports = []\<rparr>"

fun ex_diags :: "BlockStmt list \<Rightarrow> Diagnostics" where
  "ex_diags [] = []"
| "ex_diags (b # bs) =
     (if b = ''error'' then \<lparr>severity = SeverityLevelError, diagMessage = ''bad block''\<rparr> # ex_diags bs
      else ex_diags bs)"

definition ex_Apply :: "Loader \<Rightarrow> BlockStmt list \<Rightarrow> Diagnostics \<times> Loader \<times> ComponentNode list" where
  "ex_Apply l blocks =
     (ex_diags blocks,
      \<lparr>components = map ex_node (filter (\<lambda>b. b \<noteq> ''error'') blocks),
       originalGraph = []\<rparr>,
      [])"

definition ex_deps :: deps where
  "ex_deps =
     \<lparr>loggingNew = (\<lambda>w lo. Inr \<lparr>writer = w, loggerOptions = lo\<rparr>),
      DefaultOptions = \<lparr>Level = ''info'', Format = ''logfmt''\<rparr>,
      logUpdate = (\<lambda>lg lo. if Format lo = ''bad'' then Some ''unrecognized log format'' else None),
      Apply = ex_Apply,
      EvaluateDependencies = (\<lambda>l n. (l, [])),
      Synchronize = (\<lambda>s rs. (None, \<lparr>running = rs\<rparr>)),
      SchedClose = (\<lambda>s. (None, \<lparr>running = []\<rparr>))\<rparr>"

definition ex_logger :: Logger where
  "ex_logger = \<lparr>writer = Discard, loggerOptions = \<lparr>Level = ''info'', Format = ''logfmt''\<rparr>\<rparr>"

definition ex_opts :: Options where
  "ex_opts = \<lparr>optLogger = None, DataPath = ''data-agent/'', Reg = 0,
              HTTPListenAddr = ''127.0.0.1:12345''\<rparr>"

text \<open>The controller as newFlow returns it for \<open>ex_opts\<close>, and with the example loader.\<close>

definition ex_flow0 :: Flow where
  "ex_flow0 =
     \<lparr>log = Some ex_logger,
      opts = ex_opts,
      updateQueue = NewQueue,
      sched = NewScheduler,
      loader = NewLoader,
      cancelled = False,
      exited = makeChan 1,
      loadFinished = makeChan 1,
      loadedOnce = False,
      dequeued = [],
      evaluated = [],
      synchronized = []\<rparr>"

definition ex_flow_loaded :: Flow where
  "ex_flow_loaded = ex_flow0\<lparr>loader := ex_loader, loadedOnce := True\<rparr>"

text \<open>Configuration files: a good one, one with an error, and one whose logging section
  the logger rejects.\<close>

definition ex_file_good :: File where
  "ex_file_good = \<lparr>Logging = \<lparr>Level = ''info'', Format = ''logfmt''\<rparr>,
                   Components = [''local.file.a'']\<rparr>"

definition ex_file_error :: File where
  "ex_file_error = \<lparr>Logging = \<lparr>Level = ''info'', Format = ''logfmt''\<rparr>,
                    Components = [''local.file.a'', ''error'']\<rparr>"

definition ex_file_badlog :: File where
  "ex_file_badlog = \<lparr>Logging = \<lparr>Level = ''info'', Format = ''bad''\<rparr>,
                     Components = [''local.file.a'']\<rparr>"

text \<open>Collaborators as above, except that evaluating the dependants of the file changes
  the exports of the scrape job; and a controller with the file in its update queue.\<close>

definition ex_deps_chain :: deps where
  "ex_deps_chain =
     ex_deps\<lparr>EvaluateDependencies :=
       (\<lambda>l n. (l, if nodeID n = ''local.file.a'' then [ex_scrape_b] else []))\<rparr>"

definition ex_flow_queued :: Flow where
  "ex_flow_queued =
     ex_flow_loaded\<lparr>updateQueue := \<lparr>queued = [ex_file_a],
                                    updateCh = \<lparr>buffered = 1, capacity = 1, closed = False\<rparr>\<rparr>\<rparr>"

definition ex_flow_drained :: Flow where
  "ex_flow_drained =
     ex_flow_queued\<lparr>updateQueue := \<lparr>queued = [],
                                     updateCh = \<lparr>buffered = 1, capacity = 1, closed = False\<rparr>\<rparr>,
                    dequeued := [ex_file_a, ex_scrape_b],
                    evaluated := [ex_file_a, ex_scrape_b]\<rparr>"

text \<open>
  States of the running system: as New returns it for \<open>ex_opts\<close>; after a first load
  was accepted; after the event loop has then scheduled the loaded components; and the
  states that one call of Close goes through.
\<close>

definition ex_sys0 :: System where
  "ex_sys0 = \<lparr>flow = ex_flow0, loop = Running, closers = []\<rparr>"

definition ex_flow1 :: Flow where
  "ex_flow1 =
     ex_flow0\<lparr>loader := \<lparr>components = [ex_node ''local.file.a''], originalGraph = []\<rparr>,
              loadedOnce := True,
              loadFinished := \<lparr>buffered = 1, capacity = 1, closed = False\<rparr>\<rparr>"

definition ex_sys1 :: System where
  "ex_sys1 = \<lparr>flow = ex_flow1, loop = Running, closers = []\<rparr>"

definition ex_flow2 :: Flow where
  "ex_flow2 =
     ex_flow1\<lparr>loadFinished := \<lparr>buffered = 0, capacity = 1, closed = False\<rparr>,
              sched := \<lparr>running = [ex_node ''local.file.a'']\<rparr>,
              synchronized := [[ex_node ''local.file.a'']]\<rparr>"

definition ex_sys2 :: System where
  "ex_sys2 = \<lparr>flow = ex_flow2, loop = Running, closers = []\<rparr>"

definition ex_sys_close1 :: System where
  "ex_sys_close1 = \<lparr>flow = ex_flow0, loop = Running, closers = [AtCancel]\<rparr>"

definition ex_sys_close2 :: System where
  "ex_sys_close2 = \<lparr>flow = ex_flow0\<lparr>cancelled := True\<rparr>, loop = Running,
                    closers = [AtRecvExited]\<rparr>"

definition ex_sys_close3 :: System where
  "ex_sys_close3 =
     \<lparr>flow = ex_flow0\<lparr>cancelled := True,
                       exited := \<lparr>buffered = 0, capacity = 1, closed = True\<rparr>\<rparr>,
      loop = Exited, closers = [AtRecvExited]\<rparr>"

definition ex_sys_close4 :: System where
  "ex_sys_close4 = ex_sys_close3\<lparr>closers := [AtSchedClose]\<rparr>"

definition ex_sys_close5 :: System where
  "ex_sys_close5 = ex_sys_close4\<lparr>closers := [Returned None]\<rparr>"

section \<open>Properties of ComponentInfos\<close>

lemma collectEdges_eq:
  "collectEdges cn es (r, rb) =
     (r @ map (\<lambda>e. nodeID (To e)) (filter (\<lambda>e. nodeID (From e) = nodeID cn) es),
      rb @ map (\<lambda>e. nodeID (From e))
             (filter (\<lambda>e. nodeID (From e) \<noteq> nodeID cn \<and> nodeID (To e) = nodeID cn) es))"
  by (induction es arbitrary: r rb) auto

lemma filter_no_self_edge:
  assumes "\<forall>e\<in>set es. nodeID (From e) \<noteq> nodeID (To e)"
  shows "filter (\<lambda>e. nodeID (From e) \<noteq> nodeID cn \<and> nodeID (To e) = nodeID cn) es
       = filter (\<lambda>e. nodeID (To e) = nodeID cn) es"
  using assms by (intro filter_cong) auto

lemma newFromNode_References:
  "References (newFromNode cn edges) =
     map (\<lambda>e. nodeID (To e)) (filter (\<lambda>e. nodeID (From e) = nodeID cn) edges)"
  by (simp add: newFromNode_def collectEdges_eq Let_def)

lemma newFromNode_ReferencedBy:
  "ReferencedBy (newFromNode cn edges) =
     map (\<lambda>e. nodeID (From e))
       (filter (\<lambda>e. nodeID (From e) \<noteq> nodeID cn \<and> nodeID (To e) = nodeID cn) edges)"
  by (simp add: newFromNode_def collectEdges_eq Let_def)

lemma newFromNode_fields:
  "Name (newFromNode cn edges) = componentName cn"
  "Type (newFromNode cn edges) = ''block''"
  "ID (newFromNode cn edges) = nodeID cn"
  "Label (newFromNode cn edges) = label cn"
  "Health (newFromNode cn edges) =
     Some \<lparr>State = HealthType_String (health (currentHealth cn)),
           Message = message (currentHealth cn),
           UpdatedTime = updateTime (currentHealth cn)\<rparr>"
  "Original (newFromNode cn edges) = []"
  "Arguments (newFromNode cn edges) = []"
  "Exports (newFromNode cn edges) = []"
  "DebugInfo (newFromNode cn edges) = []"
  by (simp_all add: newFromNode_def Let_def split: prod.split)

lemma ComponentInfos_nth:
  "i < length (components (loader c)) \<Longrightarrow>
   ComponentInfos c ! i = newFromNode (components (loader c) ! i) (originalGraph (loader c))"
  by (simp add: ComponentInfos_def)

lemma length_ComponentInfos: "length (ComponentInfos c) = length (components (loader c))"
  by (simp add: ComponentInfos_def)

text \<open>
  An edge from a node to itself is counted in References only: the second test of the
  loop is in the else branch of the first. Such an edge is a cycle, which a graph of
  package dag that passed validation does not have.
\<close>

lemma newFromNode_self_edge:
  "References (newFromNode cn [\<lparr>From = cn, To = cn\<rparr>]) = [nodeID cn]"
  "ReferencedBy (newFromNode cn [\<lparr>From = cn, To = cn\<rparr>]) = []"
  by (simp_all add: newFromNode_References newFromNode_ReferencedBy)

text \<open>
  C7 (as amended). ComponentInfos returns one info per loaded component, in the
  loader's order. The info of a component carries its NodeID (\<open>ID\<close>), its component
  type name (\<open>Name\<close>), its label, its references and referencedBy lists and its health
  (state string, message, time). \<open>Type\<close> is the constant \<open>''block''\<close>, and the fields
  \<open>Arguments\<close>, \<open>Exports\<close>, \<open>Original\<close> and \<open>DebugInfo\<close> are left empty: newFromNode
  never reads the component's arguments or exports.
\<close>

theorem ComponentInfos_carries:
  assumes "i < length (components (loader c))"
  shows "length (ComponentInfos c) = length (components (loader c))
       \<and> ID (ComponentInfos c ! i) = nodeID (components (loader c) ! i)
       \<and> Name (ComponentInfos c ! i) = componentName (components (loader c) ! i)
       \<and> Label (ComponentInfos c ! i) = label (components (loader c) ! i)
       \<and> Type (ComponentInfos c ! i) = ''block''
       \<and> References (ComponentInfos c ! i) =
           fst (collectEdges (components (loader c) ! i) (originalGraph (loader c)) ([], []))
       \<and> ReferencedBy (ComponentInfos c ! i) =
           snd (collectEdges (components (loader c) ! i) (originalGraph (loader c)) ([], []))
       \<and> Health (ComponentInfos c ! i) =
           Some \<lparr>State = HealthType_String (health (currentHealth (components (loader c) ! i))),
                 Message = message (currentHealth (components (loader c) ! i)),
                 UpdatedTime = updateTime (currentHealth (components (loader c) ! i))\<rparr>
       \<and> Arguments (ComponentInfos c ! i) = []
       \<and> Exports (ComponentInfos c ! i) = []
       \<and> Original (ComponentInfos c ! i) = []
       \<and> DebugInfo (ComponentInfos c ! i) = []"
  using assms
  by (simp add: ComponentInfos_nth length_ComponentInfos newFromNode_fields
      newFromNode_References newFromNode_ReferencedBy collectEdges_eq)

theorem ComponentInfos_carries_witness:
  "(1::nat) < length (components (loader ex_flow_loaded))
   \<and> ID (ComponentInfos ex_flow_loaded ! 1) = ''prometheus.scrape.b''
   \<and> Name (ComponentInfos ex_flow_loaded ! 1) = ''prometheus.scrape''
   \<and> Label (ComponentInfos ex_flow_loaded ! 1) = ''b''
   \<and> Health (ComponentInfos ex_flow_loaded ! 1) =
       Some \<lparr>State = ''unknown'', Message = [], UpdatedTime = 0\<rparr>
   \<and> Arguments (ComponentInfos ex_flow_loaded ! 1) = []
   \<and> Exports (ComponentInfos ex_flow_loaded ! 1) = []"
proof -
  have len: "(1::nat) < length (components (loader ex_flow_loaded))"
    by (simp add: ex_flow_loaded_def ex_loader_def)
  have nth: "components (loader ex_flow_loaded) ! Suc 0 = ex_scrape_b"
    by (simp add: ex_flow_loaded_def ex_loader_def)
  show ?thesis
    using len ComponentInfos_carries [OF len]
    by (simp add: nth ex_scrape_b_def)
qed

text \<open>
  C7 as stated fails: the info does not carry the arguments and the exports. Two
  controllers whose components differ in their arguments and exports give the same
  infos, and the \<open>Arguments\<close> and \<open>Exports\<close> fields are empty while the component has both.
\<close>

theorem ComponentInfos_no_arguments_counterexample:
  "ComponentInfos (ex_flow0\<lparr>loader := \<lparr>components = [ex_file_a], originalGraph = []\<rparr>\<rparr>)
     = ComponentInfos (ex_flow0\<lparr>loader := \<lparr>components = [ex_file_a2], originalGraph = []\<rparr>\<rparr>)
   \<and> currentArguments ex_file_a \<noteq> currentArguments ex_file_a2
   \<and> currentExports ex_file_a \<noteq> currentExports ex_file_a2
   \<and> currentArguments ex_file_a = ''filename=x''
   \<and> currentExports ex_file_a = ''content=1''
   \<and> Arguments (ComponentInfos (ex_flow0\<lparr>loader := \<lparr>components = [ex_file_a], originalGraph = []\<rparr>\<rparr>) ! 0) = []
   \<and> Exports (ComponentInfos (ex_flow0\<lparr>loader := \<lparr>components = [ex_file_a], originalGraph = []\<rparr>\<rparr>) ! 0) = []"
  by (simp add: ComponentInfos_def newFromNode_def ex_file_a_def ex_file_a2_def)

text \<open>
  C8. For every loaded component C, the References of its info are the NodeIDs of the
  targets of the edges that leave C, and the ReferencedBy are the NodeIDs of the sources
  of the edges that enter C, both in the order of the edge list. The graph is the
  loader's original graph, a directed acyclic graph: for ReferencedBy the theorem uses
  that no edge goes from a node to itself.
\<close>

theorem ComponentInfos_references:
  assumes "i < length (components (loader c))"
  shows "References (ComponentInfos c ! i) =
           map (\<lambda>e. nodeID (To e))
             (filter (\<lambda>e. nodeID (From e) = nodeID (components (loader c) ! i))
                (originalGraph (loader c)))
       \<and> ((\<forall>e\<in>set (originalGraph (loader c)). nodeID (From e) \<noteq> nodeID (To e)) \<longrightarrow>
          ReferencedBy (ComponentInfos c ! i) =
            map (\<lambda>e. nodeID (From e))
              (filter (\<lambda>e. nodeID (To e) = nodeID (components (loader c) ! i))
                 (originalGraph (loader c))))"
  using assms filter_no_self_edge [of "originalGraph (loader c)" "components (loader c) ! i"]
  by (simp add: ComponentInfos_nth newFromNode_References newFromNode_ReferencedBy)

theorem ComponentInfos_references_witness:
  "(0::nat) < length (components (loader ex_flow_loaded))
   \<and> (1::nat) < length (components (loader ex_flow_loaded))
   \<and> list_all (\<lambda>e. nodeID (From e) \<noteq> nodeID (To e)) (originalGraph (loader ex_flow_loaded))
   \<and> References (ComponentInfos ex_flow_loaded ! 0) = []
   \<and> ReferencedBy (ComponentInfos ex_flow_loaded ! 0) = [''prometheus.scrape.b'']
   \<and> References (ComponentInfos ex_flow_loaded ! 1) = [''local.file.a'']
   \<and> ReferencedBy (ComponentInfos ex_flow_loaded ! 1) = []"
proof -
  have len0: "(0::nat) < length (components (loader ex_flow_loaded))"
    and len1: "(1::nat) < length (components (loader ex_flow_loaded))"
    by (simp_all add: ex_flow_loaded_def ex_loader_def)
  have dag: "\<forall>e\<in>set (originalGraph (loader ex_flow_loaded)). nodeID (From e) \<noteq> nodeID (To e)"
    by (simp add: ex_flow_loaded_def ex_loader_def ex_graph_def ex_scrape_b_def ex_file_a_def)
  have l: "loader ex_flow_loaded = ex_loader"
    by (simp add: ex_flow_loaded_def)
  show ?thesis
    using len0 len1 dag ComponentInfos_references [OF len0] ComponentInfos_references [OF len1]
    by (simp add: l ex_loader_def ex_graph_def ex_scrape_b_def ex_file_a_def)
qed

section \<open>Properties of LoadFile\<close>

lemma fold_OnExportsChange:
  "fold OnExportsChange ns c = c\<lparr>updateQueue := fold Enqueue ns (updateQueue c)\<rparr>"
  by (induction ns arbitrary: c) (simp_all add: OnExportsChange_def)

lemma HasErrors_nonempty: "HasErrors ds \<Longrightarrow> ds \<noteq> []"
  by (auto simp: HasErrors_def)

lemma LoadFile_logger_failed:
  assumes "log c = Some lg" and "logUpdate d lg (Logging file) = Some e"
  shows "LoadFile d file c = Inr (Some (ErrUpdatingLogger e), c)"
  using assms by (simp add: LoadFile_def)

lemma LoadFile_rejected:
  assumes "log c = Some lg" and "logUpdate d lg (Logging file) = None"
    and "Apply d (loader c) (Components file) = (diags, l', changed)"
    and "\<not> loadedOnce c" and "HasErrors diags"
  shows "LoadFile d file c =
           Inr (Some (DiagnosticsError diags),
                c\<lparr>loader := l', updateQueue := fold Enqueue changed (updateQueue c)\<rparr>)"
  using assms by (simp add: LoadFile_def fold_OnExportsChange)

lemma LoadFile_accepted:
  assumes "log c = Some lg" and "logUpdate d lg (Logging file) = None"
    and "Apply d (loader c) (Components file) = (diags, l', changed)"
    and "loadedOnce c \<or> \<not> HasErrors diags"
  shows "LoadFile d file c =
           Inr (ErrorOrNil diags,
                c\<lparr>loader := l', updateQueue := fold Enqueue changed (updateQueue c),
                  loadedOnce := True, loadFinished := trySend (loadFinished c)\<rparr>)"
  using assms by (auto simp: LoadFile_def fold_OnExportsChange Let_def)

lemma LoadFile_nil_logger: "log c = None \<Longrightarrow> LoadFile d file c = Inl NilLogger"
  by (simp add: LoadFile_def)

text \<open>What a call of LoadFile that returns leaves alone, and what it may change.\<close>

lemma LoadFile_frame:
  assumes "LoadFile d file c = Inr (err, c')"
  shows "log c' = log c" and "opts c' = opts c" and "sched c' = sched c"
    and "cancelled c' = cancelled c" and "exited c' = exited c"
    and "dequeued c' = dequeued c" and "evaluated c' = evaluated c"
    and "synchronized c' = synchronized c"
    and "loadedOnce c \<Longrightarrow> loadedOnce c'"
    and "loadFinished c' = loadFinished c \<or> loadFinished c' = trySend (loadFinished c)"
    and "\<not> loadedOnce c' \<Longrightarrow> loadFinished c' = loadFinished c"
  using assms
  by (auto simp: LoadFile_def fold_OnExportsChange Let_def
      split: option.splits prod.splits if_splits)

lemma trySend_capacity_one:
  assumes "capacity ch = 1" and "buffered ch \<le> 1"
  shows "buffered (trySend ch) = 1" and "capacity (trySend ch) = 1"
    and "closed (trySend ch) = closed ch"
    and "buffered ch = 1 \<Longrightarrow> trySend ch = ch"
  using assms by (auto simp: trySend_def)

text \<open>
  C9. When the update of the logger from the file's logging section fails, LoadFile
  returns that error, wrapped, and the controller is unchanged: the loader (and so the
  graph), the flag loadedOnce and the load-finished channel are as before. Apply is
  not called: the result is the same whatever Apply would do.
\<close>

theorem LoadFile_logger_error_unchanged:
  assumes "log c = Some lg" and "logUpdate d lg (Logging file) = Some e"
  shows "LoadFile d file c = Inr (Some (ErrUpdatingLogger e), c)
       \<and> LoadFile (d\<lparr>Apply := A\<rparr>) file c = Inr (Some (ErrUpdatingLogger e), c)
       \<and> (\<exists>c'. LoadFile d file c = Inr (Some (ErrUpdatingLogger e), c')
              \<and> loader c' = loader c \<and> loadedOnce c' = loadedOnce c
              \<and> loadFinished c' = loadFinished c \<and> c' = c)"
  using assms by (simp add: LoadFile_def)

theorem LoadFile_logger_error_unchanged_witness:
  "log ex_flow_loaded = Some ex_logger
   \<and> logUpdate ex_deps ex_logger (Logging ex_file_badlog) = Some ''unrecognized log format''
   \<and> LoadFile ex_deps ex_file_badlog ex_flow_loaded
        = Inr (Some (ErrUpdatingLogger ''unrecognized log format''), ex_flow_loaded)"
proof -
  have l: "log ex_flow_loaded = Some ex_logger"
    by (simp add: ex_flow_loaded_def ex_flow0_def)
  have u: "logUpdate ex_deps ex_logger (Logging ex_file_badlog) = Some ''unrecognized log format''"
    by (simp add: ex_deps_def ex_file_badlog_def)
  show ?thesis
    using l u LoadFile_logger_error_unchanged [OF l u] by simp
qed

text \<open>
  The guard of LoadFile. When the logger update succeeds, so that Apply runs, the call
  returns the diagnostics of Apply, nil when there are none. The load is rejected
  (flag and load-finished channel as before) exactly when no load has been accepted yet
  and \<^verbatim>\<open>HasErrors\<close> reports true of the diagnostics; otherwise the flag is set and the
  non-blocking send is performed.
\<close>

lemma LoadFile_guard:
  assumes "log c = Some lg" and "logUpdate d lg (Logging file) = None"
    and "Apply d (loader c) (Components file) = (diags, l', changed)"
  shows "\<exists>c'. LoadFile d file c = Inr (ErrorOrNil diags, c')
       \<and> loader c' = l'
       \<and> (if \<not> loadedOnce c \<and> HasErrors diags
           then \<not> loadedOnce c' \<and> loadFinished c' = loadFinished c
           else loadedOnce c' \<and> loadFinished c' = trySend (loadFinished c))"
proof (cases "\<not> loadedOnce c \<and> HasErrors diags")
  case True
  then have "ErrorOrNil diags = Some (DiagnosticsError diags)"
    using HasErrors_nonempty by (simp add: ErrorOrNil_def)
  with True LoadFile_rejected [OF assms] show ?thesis by simp
next
  case False
  then have "loadedOnce c \<or> \<not> HasErrors diags" by blast
  from LoadFile_accepted [OF assms this] False show ?thesis by auto
qed

section \<open>Properties of the event loop\<close>

lemma queued_Enqueue:
  "\<exists>xs. queued (Enqueue cn q) = queued q @ xs"
  by (simp add: Enqueue_def)

lemma queued_fold_Enqueue:
  "\<exists>xs. queued (fold Enqueue ns q) = queued q @ xs"
proof (induction ns arbitrary: q)
  case Nil
  then show ?case by simp
next
  case (Cons n ns)
  obtain xs where "queued (Enqueue n q) = queued q @ xs"
    using queued_Enqueue by blast
  moreover obtain ys where "queued (fold Enqueue ns (Enqueue n q)) = queued (Enqueue n q) @ ys"
    using Cons.IH by blast
  ultimately show ?case by simp
qed

lemma Enqueue_member: "nodeID cn \<in> nodeID ` set (queued (Enqueue cn q))"
  by (simp add: Enqueue_def)

lemma Enqueue_keeps: "x \<in> nodeID ` set (queued q) \<Longrightarrow> x \<in> nodeID ` set (queued (Enqueue cn q))"
  by (auto simp: Enqueue_def)

lemma fold_Enqueue_keeps:
  "x \<in> nodeID ` set (queued q) \<Longrightarrow> x \<in> nodeID ` set (queued (fold Enqueue ns q))"
  by (induction ns arbitrary: q) (simp_all add: Enqueue_keeps)

lemma fold_Enqueue_member:
  "m \<in> set ns \<Longrightarrow> nodeID m \<in> nodeID ` set (queued (fold Enqueue ns q))"
proof (induction ns arbitrary: q)
  case Nil
  then show ?case by simp
next
  case (Cons n ns)
  show ?case
  proof (cases "m = n")
    case True
    then show ?thesis
      using fold_Enqueue_keeps [OF Enqueue_member] by simp
  next
    case False
    with Cons show ?thesis by simp
  qed
qed

lemma handleUpdated_Some:
  assumes "log c = Some lg" and "EvaluateDependencies d (loader c) n = (l', changed)"
  shows "handleUpdated d n c =
           Inr (c\<lparr>loader := l', evaluated := evaluated c @ [n],
                  updateQueue := fold Enqueue changed (updateQueue c)\<rparr>)"
  using assms by (simp add: handleUpdated_def fold_OnExportsChange)

lemma handleUpdated_Inr:
  assumes "handleUpdated d n c = Inr c'"
  shows "\<exists>l' changed. EvaluateDependencies d (loader c) n = (l', changed)
           \<and> c' = c\<lparr>loader := l', evaluated := evaluated c @ [n],
                     updateQueue := fold Enqueue changed (updateQueue c)\<rparr>"
  using assms
  by (auto simp: handleUpdated_def fold_OnExportsChange split: option.splits prod.splits)

text \<open>
  What the inner loop has done when it returns: the queue is empty; the nodes handed
  out by TryDequeue and the nodes evaluated are the same, in the same order, and begin
  with the nodes that were queued when the loop started; nothing but the queue, the
  loader and the two histories has changed.
\<close>

lemma drain_returns:
  assumes "drain d c = Some r"
  shows "\<forall>c'. r = Inr c' \<longrightarrow>
           queued (updateQueue c') = []
         \<and> (\<exists>ms. dequeued c' = dequeued c @ queued (updateQueue c) @ ms
                \<and> evaluated c' = evaluated c @ queued (updateQueue c) @ ms)
         \<and> log c' = log c \<and> opts c' = opts c \<and> sched c' = sched c
         \<and> cancelled c' = cancelled c \<and> exited c' = exited c
         \<and> loadFinished c' = loadFinished c \<and> loadedOnce c' = loadedOnce c
         \<and> synchronized c' = synchronized c"
proof (rule drain.raw_induct [where P = "\<lambda>d c r. \<forall>c'. r = Inr c' \<longrightarrow>
           queued (updateQueue c') = []
         \<and> (\<exists>ms. dequeued c' = dequeued c @ queued (updateQueue c) @ ms
                \<and> evaluated c' = evaluated c @ queued (updateQueue c) @ ms)
         \<and> log c' = log c \<and> opts c' = opts c \<and> sched c' = sched c
         \<and> cancelled c' = cancelled c \<and> exited c' = exited c
         \<and> loadFinished c' = loadFinished c \<and> loadedOnce c' = loadedOnce c
         \<and> synchronized c' = synchronized c", OF _ assms], goal_cases)
  case (1 drain' d c r)
  show ?case
  proof (cases "queued (updateQueue c)")
    case Nil
    with 1(2) show ?thesis
      by (auto simp: TryDequeue_def)
  next
    case (Cons u us)
    let ?c0 = "c\<lparr>updateQueue := (updateQueue c)\<lparr>queued := us\<rparr>, dequeued := dequeued c @ [u]\<rparr>"
    from Cons 1(2) have body:
      "(case handleUpdated d u ?c0 of Inl p \<Rightarrow> Some (Inl p) | Inr c1 \<Rightarrow> drain' d c1) = Some r"
      by (simp add: TryDequeue_def)
    show ?thesis
    proof (intro allI impI)
      fix c' assume r: "r = Inr c'"
      with body obtain c1 where h: "handleUpdated d u ?c0 = Inr c1" and dr: "drain' d c1 = Some (Inr c')"
        by (auto split: sum.splits)
      from handleUpdated_Inr [OF h] obtain l' changed where
        c1: "c1 = ?c0\<lparr>loader := l', evaluated := evaluated ?c0 @ [u],
                       updateQueue := fold Enqueue changed (updateQueue ?c0)\<rparr>"
        by blast
      obtain xs where xs: "queued (fold Enqueue changed (updateQueue ?c0)) = us @ xs"
        using queued_fold_Enqueue [of changed "updateQueue ?c0"] by auto
      from 1(1) [OF dr] have ih:
        "queued (updateQueue c') = []
         \<and> (\<exists>ms. dequeued c' = dequeued c1 @ queued (updateQueue c1) @ ms
                \<and> evaluated c' = evaluated c1 @ queued (updateQueue c1) @ ms)
         \<and> log c' = log c1 \<and> opts c' = opts c1 \<and> sched c' = sched c1
         \<and> cancelled c' = cancelled c1 \<and> exited c' = exited c1
         \<and> loadFinished c' = loadFinished c1 \<and> loadedOnce c' = loadedOnce c1
         \<and> synchronized c' = synchronized c1"
        by simp
      then obtain ms where ms:
        "dequeued c' = dequeued c1 @ queued (updateQueue c1) @ ms"
        "evaluated c' = evaluated c1 @ queued (updateQueue c1) @ ms"
        by blast
      have "dequeued c' = dequeued c @ queued (updateQueue c) @ (xs @ ms)"
        using ms(1) xs Cons by (simp add: c1)
      moreover have "evaluated c' = evaluated c @ queued (updateQueue c) @ (xs @ ms)"
        using ms(2) xs Cons by (simp add: c1)
      ultimately have "\<exists>ms. dequeued c' = dequeued c @ queued (updateQueue c) @ ms
                \<and> evaluated c' = evaluated c @ queued (updateQueue c) @ ms"
        by blast
      with ih show "queued (updateQueue c') = []
         \<and> (\<exists>ms. dequeued c' = dequeued c @ queued (updateQueue c) @ ms
                \<and> evaluated c' = evaluated c @ queued (updateQueue c) @ ms)
         \<and> log c' = log c \<and> opts c' = opts c \<and> sched c' = sched c
         \<and> cancelled c' = cancelled c \<and> exited c' = exited c
         \<and> loadFinished c' = loadFinished c \<and> loadedOnce c' = loadedOnce c
         \<and> synchronized c' = synchronized c"
        by (simp add: c1)
    qed
  qed
qed

text \<open>The inner loop never panics when the logger is not nil.\<close>

lemma drain_no_panic:
  assumes "drain d c = Some r"
  shows "log c \<noteq> None \<longrightarrow> (\<exists>c'. r = Inr c')"
proof (rule drain.raw_induct [where P = "\<lambda>d c r. log c \<noteq> None \<longrightarrow> (\<exists>c'. r = Inr c')",
      OF _ assms], goal_cases)
  case (1 drain' d c r)
  show ?case
  proof (cases "queued (updateQueue c)")
    case Nil
    with 1(2) show ?thesis by (auto simp: TryDequeue_def)
  next
    case (Cons u us)
    let ?c0 = "c\<lparr>updateQueue := (updateQueue c)\<lparr>queued := us\<rparr>, dequeued := dequeued c @ [u]\<rparr>"
    from Cons 1(2) have body:
      "(case handleUpdated d u ?c0 of Inl p \<Rightarrow> Some (Inl p) | Inr c1 \<Rightarrow> drain' d c1) = Some r"
      by (simp add: TryDequeue_def)
    show ?thesis
    proof
      assume l: "log c \<noteq> None"
      then obtain lg where lg: "log ?c0 = Some lg" by auto
      obtain l' changed where e: "EvaluateDependencies d (loader ?c0) u = (l', changed)"
        by (cases "EvaluateDependencies d (loader ?c0) u") blast
      from handleUpdated_Some [OF lg e] body
      have "drain' d (?c0\<lparr>loader := l', evaluated := evaluated ?c0 @ [u],
                  updateQueue := fold Enqueue changed (updateQueue ?c0)\<rparr>) = Some r"
        by simp
      from 1(1) [OF this] l show "\<exists>c'. r = Inr c'" by simp
    qed
  qed
qed

text \<open>
  The inner loop returns when the evaluations enqueue nothing: it then evaluates the
  queued nodes, each once, in order.
\<close>

lemma drain_terminates:
  assumes quiet: "\<And>l n. snd (EvaluateDependencies d l n) = []"
    and "log c = Some lg" and "queued (updateQueue c) = ns"
  shows "\<exists>c'. drain d c = Some (Inr c')
           \<and> evaluated c' = evaluated c @ ns \<and> dequeued c' = dequeued c @ ns"
  using assms(2,3)
proof (induction ns arbitrary: c)
  case Nil
  then show ?case
    by (subst drain.simps) (simp add: TryDequeue_def)
next
  case (Cons u us)
  let ?c0 = "c\<lparr>updateQueue := (updateQueue c)\<lparr>queued := us\<rparr>, dequeued := dequeued c @ [u]\<rparr>"
  obtain l' where e: "EvaluateDependencies d (loader ?c0) u = (l', [])"
    using quiet [of "loader ?c0" u] by (cases "EvaluateDependencies d (loader ?c0) u") auto
  let ?c1 = "?c0\<lparr>loader := l', evaluated := evaluated ?c0 @ [u],
                  updateQueue := fold Enqueue [] (updateQueue ?c0)\<rparr>"
  have lg: "log ?c0 = Some lg" using Cons.prems by simp
  have h: "handleUpdated d u ?c0 = Inr ?c1"
    using handleUpdated_Some [OF lg e] .
  have "log ?c1 = Some lg" and "queued (updateQueue ?c1) = us"
    using Cons.prems by simp_all
  from Cons.IH [OF this] obtain c' where
    c': "drain d ?c1 = Some (Inr c')" "evaluated c' = evaluated ?c1 @ us"
        "dequeued c' = dequeued ?c1 @ us"
    by blast
  have "drain d c = drain d ?c1"
    using Cons.prems h by (subst drain.simps) (simp add: TryDequeue_def)
  with c' show ?case by simp
qed

text \<open>
  C3. When the event loop takes a queue notification, it calls TryDequeue until
  TryDequeue returns nil, and calls EvaluateDependencies on each node TryDequeue hands
  out, in the same order; it then goes on with the loop. So whenever this iteration
  completes, the queue is empty, the nodes evaluated during it are exactly the nodes
  dequeued during it, and every node that was queued at its start is among them. The
  iteration does complete, having evaluated exactly the queued nodes, when the
  evaluations enqueue nothing.
\<close>

theorem run_drains_queue:
  "(run_select d UpdateQueueChan c = Some (Inr (pc, c')) \<longrightarrow>
      pc = Running
    \<and> fst (TryDequeue (updateQueue c')) = None
    \<and> (\<exists>ms. dequeued c' = dequeued c @ queued (updateQueue c) @ ms
           \<and> evaluated c' = evaluated c @ queued (updateQueue c) @ ms))
   \<and> (log c \<noteq> None \<and> (\<forall>l n. snd (EvaluateDependencies d l n) = []) \<longrightarrow>
      (\<exists>c''. run_select d UpdateQueueChan c = Some (Inr (Running, c''))
           \<and> dequeued c'' = dequeued c @ queued (updateQueue c)
           \<and> evaluated c'' = evaluated c @ queued (updateQueue c)))"
proof (intro conjI impI)
  let ?c0 = "c\<lparr>updateQueue := (updateQueue c)\<lparr>updateCh := recv (updateCh (updateQueue c))\<rparr>\<rparr>"
  assume r: "run_select d UpdateQueueChan c = Some (Inr (pc, c'))"
  then have dr: "drain d ?c0 = Some (Inr c')" and pc: "pc = Running"
    by (auto split: option.splits sum.splits)
  from drain_returns [OF dr]
  have q: "queued (updateQueue c') = []"
    and h: "\<exists>ms. dequeued c' = dequeued ?c0 @ queued (updateQueue ?c0) @ ms
           \<and> evaluated c' = evaluated ?c0 @ queued (updateQueue ?c0) @ ms"
    by simp_all
  show "pc = Running" by (rule pc)
  show "fst (TryDequeue (updateQueue c')) = None"
    using q by (simp add: TryDequeue_def)
  show "\<exists>ms. dequeued c' = dequeued c @ queued (updateQueue c) @ ms
           \<and> evaluated c' = evaluated c @ queued (updateQueue c) @ ms"
    using h by simp
next
  let ?c0 = "c\<lparr>updateQueue := (updateQueue c)\<lparr>updateCh := recv (updateCh (updateQueue c))\<rparr>\<rparr>"
  assume a: "log c \<noteq> None \<and> (\<forall>l n. snd (EvaluateDependencies d l n) = [])"
  then obtain lg where lg: "log ?c0 = Some lg" by auto
  have "\<exists>c'. drain d ?c0 = Some (Inr c')
           \<and> evaluated c' = evaluated ?c0 @ queued (updateQueue c)
           \<and> dequeued c' = dequeued ?c0 @ queued (updateQueue c)"
    using a by (intro drain_terminates [OF _ lg]) simp_all
  then show "\<exists>c''. run_select d UpdateQueueChan c = Some (Inr (Running, c''))
           \<and> dequeued c'' = dequeued c @ queued (updateQueue c)
           \<and> evaluated c'' = evaluated c @ queued (updateQueue c)"
    by auto
qed

theorem run_drains_queue_witness:
  "run_select ex_deps_chain UpdateQueueChan ex_flow_queued = Some (Inr (Running, ex_flow_drained))
   \<and> queued (updateQueue ex_flow_queued) = [ex_file_a]
   \<and> fst (TryDequeue (updateQueue ex_flow_drained)) = None
   \<and> dequeued ex_flow_drained = [ex_file_a, ex_scrape_b]
   \<and> evaluated ex_flow_drained = [ex_file_a, ex_scrape_b]
   \<and> (\<exists>c''. run_select ex_deps UpdateQueueChan ex_flow_queued = Some (Inr (Running, c''))
           \<and> dequeued c'' = [ex_file_a] \<and> evaluated c'' = [ex_file_a])"
proof -
  let ?q = "\<lambda>ns. \<lparr>queued = ns, updateCh = \<lparr>buffered = 1, capacity = 1, closed = False\<rparr>\<rparr>"
  let ?c0 = "ex_flow_queued\<lparr>updateQueue :=
               \<lparr>queued = [ex_file_a], updateCh = \<lparr>buffered = 0, capacity = 1, closed = False\<rparr>\<rparr>\<rparr>"
  let ?c1 = "ex_flow_queued\<lparr>updateQueue := ?q [ex_scrape_b],
               dequeued := [ex_file_a], evaluated := [ex_file_a]\<rparr>"
  have ids: "nodeID ex_file_a = ''local.file.a''" "nodeID ex_scrape_b = ''prometheus.scrape.b''"
    by (simp_all add: ex_file_a_def ex_scrape_b_def)
  have flds: "log ex_flow_queued = Some ex_logger" "dequeued ex_flow_queued = []"
    "evaluated ex_flow_queued = []" "loader ex_flow_queued = ex_loader"
    "updateQueue ex_flow_queued = ?q [ex_file_a]"
    by (simp_all add: ex_flow_queued_def ex_flow_loaded_def ex_flow0_def)
  have ev: "EvaluateDependencies ex_deps_chain = (\<lambda>l n. (l, if nodeID n = ''local.file.a'' then [ex_scrape_b] else []))"
    by (simp add: ex_deps_chain_def)
  have d2: "drain ex_deps_chain ex_flow_drained = Some (Inr ex_flow_drained)"
    by (subst drain.simps) (simp add: TryDequeue_def ex_flow_drained_def)
  have d1: "drain ex_deps_chain ?c1 = drain ex_deps_chain ex_flow_drained"
    by (subst drain.simps)
       (simp add: TryDequeue_def handleUpdated_def ev ids ex_flow_drained_def
          ex_flow_queued_def ex_flow_loaded_def ex_flow0_def)
  have d0: "drain ex_deps_chain ?c0 = drain ex_deps_chain ?c1"
    by (subst drain.simps)
       (simp add: TryDequeue_def handleUpdated_def ev ids Enqueue_def trySend_def
          OnExportsChange_def ex_flow_queued_def ex_flow_loaded_def ex_flow0_def)
  have r: "run_select ex_deps_chain UpdateQueueChan ex_flow_queued
             = Some (Inr (Running, ex_flow_drained))"
    using d0 d1 d2 by (simp add: flds recv_def)
  have lg: "log ex_flow_queued \<noteq> None" by (simp add: flds)
  have quiet: "\<forall>l n. snd (EvaluateDependencies ex_deps l n) = []"
    by (simp add: ex_deps_def)
  have q: "queued (updateQueue ex_flow_queued) = [ex_file_a]" by (simp add: flds)
  show ?thesis
    using r lg quiet q
      run_drains_queue [of ex_deps_chain ex_flow_queued Running ex_flow_drained]
      run_drains_queue [of ex_deps ex_flow_queued]
    by (simp add: flds ex_flow_drained_def)
qed

text \<open>
  C4. The OnExportsChange callback enqueues the changed node on the update queue and
  does nothing else: the loader, the scheduler, the record of evaluations and every
  other field of the controller are as before, and the node is queued afterwards. An
  exports change during an evaluation is therefore not evaluated within that
  evaluation: handling a dequeued node adds exactly that node to the nodes evaluated,
  and leaves the nodes whose exports changed in the queue, for a later iteration.
\<close>

theorem OnExportsChange_only_enqueues:
  "updateQueue (OnExportsChange cn c) = Enqueue cn (updateQueue c)
   \<and> nodeID cn \<in> nodeID ` set (queued (updateQueue (OnExportsChange cn c)))
   \<and> loader (OnExportsChange cn c) = loader c
   \<and> sched (OnExportsChange cn c) = sched c
   \<and> evaluated (OnExportsChange cn c) = evaluated c
   \<and> dequeued (OnExportsChange cn c) = dequeued c
   \<and> synchronized (OnExportsChange cn c) = synchronized c
   \<and> log (OnExportsChange cn c) = log c
   \<and> opts (OnExportsChange cn c) = opts c
   \<and> cancelled (OnExportsChange cn c) = cancelled c
   \<and> exited (OnExportsChange cn c) = exited c
   \<and> loadFinished (OnExportsChange cn c) = loadFinished c
   \<and> loadedOnce (OnExportsChange cn c) = loadedOnce c
   \<and> (log c = Some lg \<and> EvaluateDependencies d (loader c) n = (l', changed) \<longrightarrow>
        (\<exists>c'. handleUpdated d n c = Inr c'
            \<and> evaluated c' = evaluated c @ [n]
            \<and> (\<forall>m\<in>set changed. nodeID m \<in> nodeID ` set (queued (updateQueue c')))))"
  by (auto simp: OnExportsChange_def Enqueue_member handleUpdated_def fold_OnExportsChange
      fold_Enqueue_member)

theorem OnExportsChange_only_enqueues_witness:
  "log ex_flow_loaded = Some ex_logger
   \<and> EvaluateDependencies ex_deps_chain (loader ex_flow_loaded) ex_file_a = (ex_loader, [ex_scrape_b])
   \<and> queued (updateQueue (OnExportsChange ex_scrape_b ex_flow_loaded)) = [ex_scrape_b]
   \<and> evaluated (OnExportsChange ex_scrape_b ex_flow_loaded) = []
   \<and> (\<exists>c'. handleUpdated ex_deps_chain ex_file_a ex_flow_loaded = Inr c'
          \<and> evaluated c' = [ex_file_a]
          \<and> nodeID ex_scrape_b \<in> nodeID ` set (queued (updateQueue c')))"
proof -
  have l: "log ex_flow_loaded = Some ex_logger"
    by (simp add: ex_flow_loaded_def ex_flow0_def)
  have e: "EvaluateDependencies ex_deps_chain (loader ex_flow_loaded) ex_file_a
             = (ex_loader, [ex_scrape_b])"
    by (simp add: ex_deps_chain_def ex_flow_loaded_def ex_file_a_def)
  have q: "updateQueue ex_flow_loaded = NewQueue" "evaluated ex_flow_loaded = []"
    by (simp_all add: ex_flow_loaded_def ex_flow0_def)
  show ?thesis
    using l e
      OnExportsChange_only_enqueues [of ex_scrape_b ex_flow_loaded ex_logger ex_deps_chain
        ex_file_a ex_loader "[ex_scrape_b]"]
    by (simp add: q NewQueue_def Enqueue_def)
qed

section \<open>Properties of the running system\<close>

subsection \<open>What each operation leaves alone\<close>

lemma run_select_CtxDone:
  assumes "run_select d CtxDone c = Some (Inr (pc, c'))"
  shows "pc = Exited" and "c' = c\<lparr>exited := closeChan (exited c)\<rparr>"
  using assms by (auto split: option.splits)

lemma run_select_UpdateQueueChan:
  assumes "run_select d UpdateQueueChan c = Some (Inr (pc, c'))"
  shows "pc = Running" and "log c' = log c" and "opts c' = opts c" and "sched c' = sched c"
    and "cancelled c' = cancelled c" and "exited c' = exited c"
    and "loadFinished c' = loadFinished c" and "loadedOnce c' = loadedOnce c"
    and "synchronized c' = synchronized c"
proof -
  let ?c0 = "c\<lparr>updateQueue := (updateQueue c)\<lparr>updateCh := recv (updateCh (updateQueue c))\<rparr>\<rparr>"
  from assms have dr: "drain d ?c0 = Some (Inr c')" and pc: "pc = Running"
    by (auto split: option.splits sum.splits)
  show "pc = Running" by (rule pc)
  from drain_returns [OF dr]
  show "log c' = log c" and "opts c' = opts c" and "sched c' = sched c"
    and "cancelled c' = cancelled c" and "exited c' = exited c"
    and "loadFinished c' = loadFinished c" and "loadedOnce c' = loadedOnce c"
    and "synchronized c' = synchronized c"
    by simp_all
qed

lemma run_select_LoadFinishedChan:
  assumes "run_select d LoadFinishedChan c = Some (Inr (pc, c'))"
  shows "pc = Running" and "log c' = log c" and "opts c' = opts c"
    and "cancelled c' = cancelled c" and "exited c' = exited c"
    and "loadFinished c' = recv (loadFinished c)" and "loadedOnce c' = loadedOnce c"
    and "synchronized c' = synchronized c @ [components (loader c)]"
    and "loader c' = loader c" and "updateQueue c' = updateQueue c"
  using assms by (auto simp: Let_def split: option.splits prod.splits)

lemma run_select_frame:
  assumes "run_select d e c = Some (Inr (pc, c'))"
  shows "log c' = log c" and "opts c' = opts c" and "cancelled c' = cancelled c"
    and "loadedOnce c' = loadedOnce c"
    and "capacity (loadFinished c') = capacity (loadFinished c)"
    and "closed (loadFinished c') = closed (loadFinished c)"
    and "buffered (loadFinished c') \<le> buffered (loadFinished c)"
proof -
  have "log c' = log c \<and> opts c' = opts c \<and> cancelled c' = cancelled c
      \<and> loadedOnce c' = loadedOnce c
      \<and> capacity (loadFinished c') = capacity (loadFinished c)
      \<and> closed (loadFinished c') = closed (loadFinished c)
      \<and> buffered (loadFinished c') \<le> buffered (loadFinished c)"
  proof (cases e)
    case CtxDone
    with assms have "c' = c\<lparr>exited := closeChan (exited c)\<rparr>"
      using run_select_CtxDone(2) by blast
    then show ?thesis by simp
  next
    case UpdateQueueChan
    with assms have r: "run_select d UpdateQueueChan c = Some (Inr (pc, c'))" by simp
    show ?thesis
      using run_select_UpdateQueueChan(2-9) [OF r] by simp
  next
    case LoadFinishedChan
    with assms have r: "run_select d LoadFinishedChan c = Some (Inr (pc, c'))" by simp
    show ?thesis
      using run_select_LoadFinishedChan(2-7) [OF r] by (simp add: recv_def)
  qed
  then show "log c' = log c" and "opts c' = opts c" and "cancelled c' = cancelled c"
    and "loadedOnce c' = loadedOnce c"
    and "capacity (loadFinished c') = capacity (loadFinished c)"
    and "closed (loadFinished c') = closed (loadFinished c)"
    and "buffered (loadFinished c') \<le> buffered (loadFinished c)"
    by simp_all
qed

lemma Close_schedClose_frame:
  assumes "Close_schedClose d c = (err, c')"
  shows "err = fst (SchedClose d (sched c))" and "c' = c\<lparr>sched := snd (SchedClose d (sched c))\<rparr>"
  using assms by (auto simp: Close_schedClose_def split: prod.splits)

text \<open>Every step keeps the logger, and never clears the flag loadedOnce or the
  cancellation of the context.\<close>

lemma step_log: "step d s a s' \<Longrightarrow> log (flow s') = log (flow s)"
proof (erule step.cases, goal_cases)
  case (1 fl s0 err c')
  then show ?case using LoadFile_frame(1) [of d fl "flow s0" err c'] by simp
next
  case (3 s0 e pc' c')
  then show ?case using run_select_frame(1) [of d e "flow s0" pc' c'] by simp
next
  case (7 i s0 err c')
  then show ?case using Close_schedClose_frame(2) [of d "flow s0" err c'] by simp
qed (simp_all add: OnExportsChange_def Close_cancel_def Close_recvExited_def)

lemma step_loadedOnce: "step d s a s' \<Longrightarrow> loadedOnce (flow s) \<Longrightarrow> loadedOnce (flow s')"
proof (erule step.cases, goal_cases)
  case (1 fl s0 err c')
  then show ?case using LoadFile_frame(9) [of d fl "flow s0" err c'] by simp
next
  case (3 s0 e pc' c')
  then show ?case using run_select_frame(4) [of d e "flow s0" pc' c'] by simp
next
  case (7 i s0 err c')
  then show ?case using Close_schedClose_frame(2) [of d "flow s0" err c'] by simp
qed (simp_all add: OnExportsChange_def Close_cancel_def Close_recvExited_def)

lemma step_cancelled: "step d s a s' \<Longrightarrow> cancelled (flow s) \<Longrightarrow> cancelled (flow s')"
proof (erule step.cases, goal_cases)
  case (1 fl s0 err c')
  then show ?case using LoadFile_frame(4) [of d fl "flow s0" err c'] by simp
next
  case (3 s0 e pc' c')
  then show ?case using run_select_frame(3) [of d e "flow s0" pc' c'] by simp
next
  case (7 i s0 err c')
  then show ?case using Close_schedClose_frame(2) [of d "flow s0" err c'] by simp
qed (simp_all add: OnExportsChange_def Close_cancel_def Close_recvExited_def)

subsection \<open>Invariants of the reachable states\<close>

lemma New_Inr:
  assumes "New d opt = Inr s"
  shows "\<exists>lg. log (flow s) = Some lg"
    and "loadFinished (flow s) = makeChan 1" and "exited (flow s) = makeChan 1"
    and "\<not> loadedOnce (flow s)" and "\<not> cancelled (flow s)"
    and "synchronized (flow s) = []" and "evaluated (flow s) = []" and "dequeued (flow s) = []"
    and "sched (flow s) = NewScheduler" and "loader (flow s) = NewLoader"
    and "updateQueue (flow s) = NewQueue"
    and "loop s = Running" and "closers s = []"
  using assms
  by (auto simp: New_def newFlow_def split: option.splits sum.splits)

lemma reachable_log: "reachable d opt s \<Longrightarrow> log (flow s) \<noteq> None"
proof (induction rule: reachable.induct)
  case (init s)
  then show ?case using New_Inr(1) by fastforce
next
  case (after s a s')
  then show ?case by (simp add: step_log)
qed

text \<open>The load-finished channel has capacity one, is never closed, and never holds more
  than one notification.\<close>

lemma step_loadFinished:
  assumes "step d s a s'"
    and "capacity (loadFinished (flow s)) = 1 \<and> buffered (loadFinished (flow s)) \<le> 1
         \<and> \<not> closed (loadFinished (flow s))"
  shows "capacity (loadFinished (flow s')) = 1 \<and> buffered (loadFinished (flow s')) \<le> 1
         \<and> \<not> closed (loadFinished (flow s'))"
  using assms
proof (cases rule: step.cases)
  case (load_file fl err c')
  from LoadFile_frame(10) [OF load_file(3)]
  consider "loadFinished c' = loadFinished (flow s)"
    | "loadFinished c' = trySend (loadFinished (flow s))"
    by blast
  then show ?thesis
  proof cases
    case 1
    with assms(2) load_file(2) show ?thesis by simp
  next
    case 2
    with assms(2) load_file(2) trySend_capacity_one(1-3) [of "loadFinished (flow s)"]
    show ?thesis by simp
  qed
next
  case (select e pc' c')
  from run_select_frame(5-7) [OF select(5)] assms(2) select(2) show ?thesis
    by auto
next
  case (close_sched_close i err c')
  with assms(2) Close_schedClose_frame(2) [OF close_sched_close(5)] show ?thesis by simp
qed (auto simp: OnExportsChange_def Close_cancel_def Close_recvExited_def)

lemma reachable_loadFinished:
  "reachable d opt s \<Longrightarrow>
   capacity (loadFinished (flow s)) = 1 \<and> buffered (loadFinished (flow s)) \<le> 1
   \<and> \<not> closed (loadFinished (flow s))"
proof (induction rule: reachable.induct)
  case (init s)
  then show ?case using New_Inr(2) [OF init] by (simp add: makeChan_def)
next
  case (after s a s')
  then show ?case using step_loadFinished by blast
qed

text \<open>Until a load has been accepted, no load-finished notification is pending and
  Synchronize has not been called.\<close>

lemma step_before_first_load:
  assumes "step d s a s'"
    and "\<not> closed (loadFinished (flow s))"
    and "\<not> loadedOnce (flow s) \<longrightarrow>
           buffered (loadFinished (flow s)) = 0 \<and> synchronized (flow s) = []"
    and "\<not> loadedOnce (flow s')"
  shows "buffered (loadFinished (flow s')) = 0 \<and> synchronized (flow s') = []"
proof -
  have n: "\<not> loadedOnce (flow s)"
    using step_loadedOnce [OF assms(1)] assms(4) by blast
  with assms(3) have b: "buffered (loadFinished (flow s)) = 0" "synchronized (flow s) = []"
    by simp_all
  from assms(1) show ?thesis
  proof (cases rule: step.cases)
    case (load_file fl err c')
    from LoadFile_frame(8,11) [OF load_file(3)] assms(4) b load_file(2) show ?thesis
      by simp
  next
    case (select e pc' c')
    show ?thesis
    proof (cases e)
      case CtxDone
      with select b run_select_CtxDone(2) [of d "flow s" pc' c'] show ?thesis by simp
    next
      case UpdateQueueChan
      with select b run_select_UpdateQueueChan(7,9) [of d "flow s" pc' c'] show ?thesis by simp
    next
      case LoadFinishedChan
      with select(4) b(1) assms(2) show ?thesis by (simp add: canRecv_def)
    qed
  next
    case (close_sched_close i err c')
    with b Close_schedClose_frame(2) [OF close_sched_close(5)] show ?thesis by simp
  qed (use b in \<open>auto simp: OnExportsChange_def Close_cancel_def Close_recvExited_def\<close>)
qed

lemma reachable_before_first_load:
  "reachable d opt s \<Longrightarrow> \<not> loadedOnce (flow s) \<longrightarrow>
     buffered (loadFinished (flow s)) = 0 \<and> synchronized (flow s) = []"
proof (induction rule: reachable.induct)
  case (init s)
  then show ?case using New_Inr(2,6) [OF init] by (simp add: makeChan_def)
next
  case (after s a s')
  then show ?case
    using step_before_first_load [OF after(2)] reachable_loadFinished [OF after(1)] by blast
qed

text \<open>The channel \<open>exited\<close> is never sent on; it is closed exactly when the event loop
  has returned, which happens only once the context is cancelled.\<close>

lemma step_loop_Exited: "step d s a s' \<Longrightarrow> loop s = Exited \<Longrightarrow> loop s' = Exited"
  by (erule step.cases) simp_all

lemma step_exited:
  assumes "step d s a s'"
    and "buffered (exited (flow s)) = 0 \<and> (closed (exited (flow s)) \<longleftrightarrow> loop s = Exited)
         \<and> (loop s = Exited \<longrightarrow> cancelled (flow s))"
  shows "buffered (exited (flow s')) = 0 \<and> (closed (exited (flow s')) \<longleftrightarrow> loop s' = Exited)
         \<and> (loop s' = Exited \<longrightarrow> cancelled (flow s'))"
  using assms(1)
proof (cases rule: step.cases)
  case (load_file fl err c')
  with assms(2) LoadFile_frame(4,5) [OF load_file(3)] show ?thesis by simp
next
  case (select e pc' c')
  show ?thesis
  proof (cases e)
    case CtxDone
    with select assms(2) run_select_CtxDone [of d "flow s" pc' c'] show ?thesis
      by (simp add: closeChan_def)
  next
    case UpdateQueueChan
    with select assms(2) run_select_UpdateQueueChan(1,5,6) [of d "flow s" pc' c'] show ?thesis
      by simp
  next
    case LoadFinishedChan
    with select assms(2) run_select_LoadFinishedChan(1,4,5) [of d "flow s" pc' c'] show ?thesis
      by simp
  qed
next
  case (close_sched_close i err c')
  with assms(2) Close_schedClose_frame(2) [OF close_sched_close(5)] show ?thesis by simp
qed (use assms(2) in \<open>auto simp: OnExportsChange_def Close_cancel_def Close_recvExited_def recv_def\<close>)

lemma reachable_exited:
  "reachable d opt s \<Longrightarrow>
   buffered (exited (flow s)) = 0 \<and> (closed (exited (flow s)) \<longleftrightarrow> loop s = Exited)
   \<and> (loop s = Exited \<longrightarrow> cancelled (flow s))"
proof (induction rule: reachable.induct)
  case (init s)
  then show ?case using New_Inr(3,12) [OF init] by (simp add: makeChan_def)
next
  case (after s a s')
  then show ?case using step_exited by blast
qed

text \<open>A call of Close that is past \<^verbatim>\<open>c.cancel()\<close> has cancelled the context; one that is
  past \<^verbatim>\<open><-c.exited\<close> finds the event loop exited.\<close>

lemma step_closers:
  assumes "step d s a s'"
    and ex: "buffered (exited (flow s)) = 0 \<and> (closed (exited (flow s)) \<longleftrightarrow> loop s = Exited)"
    and inv: "\<forall>pc\<in>set (closers s).
           (pc \<noteq> AtCancel \<longrightarrow> cancelled (flow s))
         \<and> (pc \<noteq> AtCancel \<and> pc \<noteq> AtRecvExited \<longrightarrow> loop s = Exited)"
  shows "\<forall>pc\<in>set (closers s').
           (pc \<noteq> AtCancel \<longrightarrow> cancelled (flow s'))
         \<and> (pc \<noteq> AtCancel \<and> pc \<noteq> AtRecvExited \<longrightarrow> loop s' = Exited)"
proof -
  have c: "cancelled (flow s) \<Longrightarrow> cancelled (flow s')"
    using step_cancelled [OF assms(1)] .
  have l: "loop s = Exited \<Longrightarrow> loop s' = Exited"
    using step_loop_Exited [OF assms(1)] .
  from assms(1) show ?thesis
  proof (cases rule: step.cases)
    case (load_file fl err c')
    with inv c l show ?thesis by auto
  next
    case (exports_changed cn)
    with inv c l show ?thesis by auto
  next
    case (select e pc' c')
    with inv c l show ?thesis by auto
  next
    case call_close
    with inv c l show ?thesis by auto
  next
    case (close_cancel i)
    have "set ((closers s)[i := AtRecvExited]) \<subseteq> insert AtRecvExited (set (closers s))"
      by (rule set_update_subset_insert)
    with close_cancel inv l show ?thesis
      by (auto simp: Close_cancel_def)
  next
    case (close_recv_exited i)
    have sub: "set ((closers s)[i := AtSchedClose]) \<subseteq> insert AtSchedClose (set (closers s))"
      by (rule set_update_subset_insert)
    from close_recv_exited(5) ex have ex': "loop s = Exited"
      by (simp add: canRecv_def)
    from close_recv_exited(3,4) have "AtRecvExited \<in> set (closers s)"
      using nth_mem by fastforce
    with inv have "cancelled (flow s)" by auto
    with close_recv_exited sub inv ex' show ?thesis
      by (auto simp: Close_recvExited_def)
  next
    case (close_sched_close i err c')
    have sub: "set ((closers s)[i := Returned err]) \<subseteq> insert (Returned err) (set (closers s))"
      by (rule set_update_subset_insert)
    from close_sched_close(3,4) have "AtSchedClose \<in> set (closers s)"
      using nth_mem by fastforce
    with inv have "cancelled (flow s)" "loop s = Exited" by auto
    with close_sched_close sub inv c l show ?thesis
      by auto
  qed
qed

lemma reachable_closers:
  "reachable d opt s \<Longrightarrow>
   \<forall>pc\<in>set (closers s).
       (pc \<noteq> AtCancel \<longrightarrow> cancelled (flow s))
     \<and> (pc \<noteq> AtCancel \<and> pc \<noteq> AtRecvExited \<longrightarrow> loop s = Exited)"
proof (induction rule: reachable.induct)
  case (init s)
  then show ?case using New_Inr(13) [OF init] by simp
next
  case (after s a s')
  from reachable_exited [OF after(1)]
  have "buffered (exited (flow s)) = 0 \<and> (closed (exited (flow s)) \<longleftrightarrow> loop s = Exited)"
    by simp
  from step_closers [OF after(2) this after(3)] show ?case .
qed

lemma steps_reachable: "steps d s s' \<Longrightarrow> reachable d opt s \<Longrightarrow> reachable d opt s'"
  by (induction rule: steps.induct) (auto intro: reachable.after)

lemma steps_loadedOnce: "steps d s s' \<Longrightarrow> loadedOnce (flow s) \<Longrightarrow> loadedOnce (flow s')"
  by (induction rule: steps.induct) (auto intro: step_loadedOnce)

subsection \<open>The first load, and the loads after it\<close>

lemma LoadFile_returns:
  assumes "log c = Some lg"
  shows "\<exists>err c'. LoadFile d fl c = Inr (err, c')"
  using assms by (auto simp: LoadFile_def Let_def split: option.splits prod.splits)

text \<open>
  C1 (as amended). Take any state the running system can reach, and any call of
  LoadFile there whose logger update succeeds, so that Apply runs and yields
  diagnostics. The call returns.
  \<^item> If no load has been accepted so far and the diagnostics contain errors, the call
    returns the diagnostics and sends nothing: the flag stays clear, the load-finished
    channel is as before and empty, so the event loop cannot take its scheduling case,
    and Synchronize has never been called.
  \<^item> If a load has been accepted before, the call returns the diagnostics (nil when there
    are none) and performs the non-blocking send: a load-finished notification is
    pending afterwards, whatever the diagnostics.
  \<^item> Whatever steps follow, the flag loadedOnce stays set once it is set; and while it is
    clear, Synchronize has not been called and no notification is pending.
\<close>

theorem LoadFile_first_load_gate:
  assumes "reachable d opt s"
    and "log (flow s) = Some lg" and "logUpdate d lg (Logging fl) = None"
    and "Apply d (loader (flow s)) (Components fl) = (diags, l', changed)"
  shows "\<exists>err c'. LoadFile d fl (flow s) = Inr (err, c')
       \<and> step d s (CallLoadFile fl err) (s\<lparr>flow := c'\<rparr>)
       \<and> (\<not> loadedOnce (flow s) \<and> HasErrors diags \<longrightarrow>
            err = Some (DiagnosticsError diags)
          \<and> \<not> loadedOnce c'
          \<and> loadFinished c' = loadFinished (flow s)
          \<and> \<not> ready LoadFinishedChan c'
          \<and> synchronized c' = [])
       \<and> (loadedOnce (flow s) \<longrightarrow>
            err = ErrorOrNil diags
          \<and> loadedOnce c'
          \<and> loadFinished c' = trySend (loadFinished (flow s))
          \<and> ready LoadFinishedChan c')
       \<and> (\<forall>s''. steps d s s'' \<longrightarrow>
            (loadedOnce (flow s) \<longrightarrow> loadedOnce (flow s''))
          \<and> (\<not> loadedOnce (flow s'') \<longrightarrow>
               synchronized (flow s'') = [] \<and> \<not> ready LoadFinishedChan (flow s'')))"
proof -
  let ?q = "fold Enqueue changed (updateQueue (flow s))"
  have lf: "capacity (loadFinished (flow s)) = 1" "buffered (loadFinished (flow s)) \<le> 1"
    "\<not> closed (loadFinished (flow s))"
    using reachable_loadFinished [OF assms(1)] by simp_all
  have later: "\<forall>s''. steps d s s'' \<longrightarrow>
            (loadedOnce (flow s) \<longrightarrow> loadedOnce (flow s''))
          \<and> (\<not> loadedOnce (flow s'') \<longrightarrow>
               synchronized (flow s'') = [] \<and> \<not> ready LoadFinishedChan (flow s''))"
  proof (intro allI impI conjI)
    fix s'' assume st: "steps d s s''"
    then have r: "reachable d opt s''" using steps_reachable assms(1) by blast
    { assume "loadedOnce (flow s)"
      then show "loadedOnce (flow s'')" using steps_loadedOnce [OF st] by simp }
    { assume n: "\<not> loadedOnce (flow s'')"
      with reachable_before_first_load [OF r]
      show "synchronized (flow s'') = []" by simp
      from n reachable_before_first_load [OF r] reachable_loadFinished [OF r]
      show "\<not> ready LoadFinishedChan (flow s'')" by (simp add: canRecv_def) }
  qed
  show ?thesis
  proof (cases "\<not> loadedOnce (flow s) \<and> HasErrors diags")
    case True
    let ?c' = "(flow s)\<lparr>loader := l', updateQueue := ?q\<rparr>"
    have r: "LoadFile d fl (flow s) = Inr (Some (DiagnosticsError diags), ?c')"
      using LoadFile_rejected [OF assms(2-4)] True by simp
    have b: "buffered (loadFinished (flow s)) = 0" "synchronized (flow s) = []"
      using reachable_before_first_load [OF assms(1)] True by simp_all
    have "step d s (CallLoadFile fl (Some (DiagnosticsError diags))) (s\<lparr>flow := ?c'\<rparr>)"
      using step.load_file [OF r] .
    with r True b lf later show ?thesis
      by (intro exI [of _ "Some (DiagnosticsError diags)"] exI [of _ ?c'])
         (simp add: canRecv_def)
  next
    case False
    let ?c' = "(flow s)\<lparr>loader := l', updateQueue := ?q, loadedOnce := True,
                 loadFinished := trySend (loadFinished (flow s))\<rparr>"
    from False have acc: "loadedOnce (flow s) \<or> \<not> HasErrors diags" by blast
    have r: "LoadFile d fl (flow s) = Inr (ErrorOrNil diags, ?c')"
      using LoadFile_accepted [OF assms(2-4) acc] .
    have "step d s (CallLoadFile fl (ErrorOrNil diags)) (s\<lparr>flow := ?c'\<rparr>)"
      using step.load_file [OF r] .
    moreover have "buffered (trySend (loadFinished (flow s))) = 1"
      using trySend_capacity_one(1) lf by simp
    ultimately show ?thesis
      using r False later
      by (intro exI [of _ "ErrorOrNil diags"] exI [of _ ?c'])
         (simp add: canRecv_def)
  qed
qed

lemma ex_New: "New ex_deps ex_opts = Inr ex_sys0"
  by (simp add: New_def newFlow_def ex_deps_def ex_opts_def ex_sys0_def ex_flow0_def
      ex_logger_def)

lemma ex_reachable0: "reachable ex_deps ex_opts ex_sys0"
  using ex_New by (rule reachable.init)

lemma ex_LoadFile_good:
  "LoadFile ex_deps ex_file_good ex_flow0 = Inr (None, ex_flow1)"
  by (simp add: LoadFile_def ex_flow0_def ex_flow1_def ex_deps_def ex_file_good_def
      ex_Apply_def HasErrors_def ErrorOrNil_def trySend_def makeChan_def)

lemma ex_reachable1: "reachable ex_deps ex_opts ex_sys1"
proof -
  have "LoadFile ex_deps ex_file_good (flow ex_sys0) = Inr (None, ex_flow1)"
    using ex_LoadFile_good by (simp add: ex_sys0_def)
  from step.load_file [OF this]
  have "step ex_deps ex_sys0 (CallLoadFile ex_file_good None) ex_sys1"
    by (simp add: ex_sys0_def ex_sys1_def)
  with ex_reachable0 show ?thesis by (rule reachable.after)
qed

theorem LoadFile_first_load_gate_witness:
  "reachable ex_deps ex_opts ex_sys0
   \<and> \<not> loadedOnce (flow ex_sys0)
   \<and> HasErrors [\<lparr>severity = SeverityLevelError, diagMessage = ''bad block''\<rparr>]
   \<and> (\<exists>c'. LoadFile ex_deps ex_file_error (flow ex_sys0) =
             Inr (Some (DiagnosticsError [\<lparr>severity = SeverityLevelError, diagMessage = ''bad block''\<rparr>]), c')
          \<and> \<not> loadedOnce c' \<and> \<not> ready LoadFinishedChan c' \<and> synchronized c' = [])
   \<and> reachable ex_deps ex_opts ex_sys1
   \<and> loadedOnce (flow ex_sys1)
   \<and> (\<exists>c'. LoadFile ex_deps ex_file_error (flow ex_sys1) =
             Inr (Some (DiagnosticsError [\<lparr>severity = SeverityLevelError, diagMessage = ''bad block''\<rparr>]), c')
          \<and> loadedOnce c' \<and> ready LoadFinishedChan c')"
proof -
  let ?ds = "[\<lparr>severity = SeverityLevelError, diagMessage = ''bad block''\<rparr>]"
  let ?l = "\<lparr>components = [ex_node ''local.file.a''], originalGraph = []\<rparr>"
  have h: "HasErrors ?ds" by (simp add: HasErrors_def)
  have e: "ErrorOrNil ?ds = Some (DiagnosticsError ?ds)" by (simp add: ErrorOrNil_def)
  have l0: "log (flow ex_sys0) = Some ex_logger"
    and n0: "\<not> loadedOnce (flow ex_sys0)"
    by (simp_all add: ex_sys0_def ex_flow0_def)
  have l1: "log (flow ex_sys1) = Some ex_logger"
    and n1: "loadedOnce (flow ex_sys1)"
    by (simp_all add: ex_sys1_def ex_flow1_def ex_flow0_def)
  have u: "logUpdate ex_deps ex_logger (Logging ex_file_error) = None"
    by (simp add: ex_deps_def ex_file_error_def)
  have a0: "Apply ex_deps (loader (flow ex_sys0)) (Components ex_file_error) = (?ds, ?l, [])"
    by (simp add: ex_deps_def ex_file_error_def ex_Apply_def)
  have a1: "Apply ex_deps (loader (flow ex_sys1)) (Components ex_file_error) = (?ds, ?l, [])"
    by (simp add: ex_deps_def ex_file_error_def ex_Apply_def)
  have first: "\<exists>c'. LoadFile ex_deps ex_file_error (flow ex_sys0) = Inr (Some (DiagnosticsError ?ds), c')
          \<and> \<not> loadedOnce c' \<and> \<not> ready LoadFinishedChan c' \<and> synchronized c' = []"
    using LoadFile_first_load_gate [OF ex_reachable0 l0 u a0] n0 h by blast
  have later: "\<exists>c'. LoadFile ex_deps ex_file_error (flow ex_sys1) = Inr (Some (DiagnosticsError ?ds), c')
          \<and> loadedOnce c' \<and> ready LoadFinishedChan c'"
    using LoadFile_first_load_gate [OF ex_reachable1 l1 u a1] n1 e by auto
  from ex_reachable0 n0 h first ex_reachable1 n1 later show ?thesis by blast
qed

lemma ex_reachable2: "reachable ex_deps ex_opts ex_sys2"
proof -
  have "run_select ex_deps LoadFinishedChan (flow ex_sys1) = Some (Inr (Running, ex_flow2))"
    by (simp add: ex_sys1_def ex_flow1_def ex_flow2_def ex_flow0_def ex_deps_def recv_def
        NewScheduler_def Let_def)
  moreover have "loop ex_sys1 = Running" and "ready LoadFinishedChan (flow ex_sys1)"
    by (simp_all add: ex_sys1_def ex_flow1_def canRecv_def)
  ultimately have "step ex_deps ex_sys1 (Select LoadFinishedChan)
                     (ex_sys1\<lparr>flow := ex_flow2, loop := Running\<rparr>)"
    using step.select [of ex_sys1 LoadFinishedChan ex_deps Running ex_flow2] by simp
  then have "step ex_deps ex_sys1 (Select LoadFinishedChan) ex_sys2"
    by (simp add: ex_sys1_def ex_sys2_def)
  with ex_reachable1 show ?thesis by (rule reachable.after)
qed

text \<open>
  C1 as stated fails for a later call whose logger update fails. In a reachable state
  in which a load has been accepted and no notification is pending, LoadFile on a file
  whose logging section the logger rejects returns the logger's error, not diagnostics,
  and sends nothing: no notification is pending afterwards.
\<close>

theorem LoadFile_later_call_logger_failure_counterexample:
  "reachable ex_deps ex_opts ex_sys2
   \<and> loadedOnce (flow ex_sys2)
   \<and> buffered (loadFinished (flow ex_sys2)) = 0
   \<and> LoadFile ex_deps ex_file_badlog (flow ex_sys2)
        = Inr (Some (ErrUpdatingLogger ''unrecognized log format''), flow ex_sys2)
   \<and> \<not> ready LoadFinishedChan (flow ex_sys2)"
proof -
  have "LoadFile ex_deps ex_file_badlog (flow ex_sys2)
        = Inr (Some (ErrUpdatingLogger ''unrecognized log format''), flow ex_sys2)"
    by (simp add: LoadFile_def ex_sys2_def ex_flow2_def ex_flow1_def ex_flow0_def
        ex_deps_def ex_file_badlog_def)
  moreover have "loadedOnce (flow ex_sys2)" "buffered (loadFinished (flow ex_sys2)) = 0"
    "\<not> ready LoadFinishedChan (flow ex_sys2)"
    by (simp_all add: ex_sys2_def ex_flow2_def ex_flow1_def canRecv_def)
  ultimately show ?thesis using ex_reachable2 by simp
qed

subsection \<open>The load-finished signal\<close>

text \<open>
  C6. In every state the running system can reach, the load-finished channel has
  capacity one and holds at most one notification. A call of LoadFile is never blocked:
  it returns in every such state, the send being the default-guarded select. When a
  notification is already pending, the send changes nothing: the duplicate is dropped.
\<close>

theorem loadFinished_send_never_blocks:
  assumes "reachable d opt s"
  shows "capacity (loadFinished (flow s)) = 1
       \<and> buffered (loadFinished (flow s)) \<le> 1
       \<and> (\<exists>err c'. LoadFile d fl (flow s) = Inr (err, c')
             \<and> step d s (CallLoadFile fl err) (s\<lparr>flow := c'\<rparr>)
             \<and> buffered (loadFinished c') \<le> 1
             \<and> (buffered (loadFinished (flow s)) = 1 \<longrightarrow>
                  loadFinished c' = loadFinished (flow s)))
       \<and> (buffered (loadFinished (flow s)) = 1 \<longrightarrow>
            trySend (loadFinished (flow s)) = loadFinished (flow s))"
proof -
  have lf: "capacity (loadFinished (flow s)) = 1" "buffered (loadFinished (flow s)) \<le> 1"
    using reachable_loadFinished [OF assms] by simp_all
  obtain lg where "log (flow s) = Some lg"
    using reachable_log [OF assms] by blast
  then obtain err c' where r: "LoadFile d fl (flow s) = Inr (err, c')"
    using LoadFile_returns by blast
  from step.load_file [OF r]
  have st: "step d s (CallLoadFile fl err) (s\<lparr>flow := c'\<rparr>)" .
  from reachable_loadFinished [OF reachable.after [OF assms st]]
  have b': "buffered (loadFinished c') \<le> 1" by simp
  have dup: "buffered (loadFinished (flow s)) = 1 \<Longrightarrow>
      trySend (loadFinished (flow s)) = loadFinished (flow s)"
    using trySend_capacity_one(4) lf by blast
  have "buffered (loadFinished (flow s)) = 1 \<longrightarrow> loadFinished c' = loadFinished (flow s)"
    using LoadFile_frame(10) [OF r] dup by auto
  with lf r st b' dup show ?thesis by blast
qed

theorem loadFinished_send_never_blocks_witness:
  "reachable ex_deps ex_opts ex_sys1
   \<and> buffered (loadFinished (flow ex_sys1)) = 1
   \<and> capacity (loadFinished (flow ex_sys1)) = 1
   \<and> (\<exists>err c'. LoadFile ex_deps ex_file_good (flow ex_sys1) = Inr (err, c')
          \<and> loadFinished c' = loadFinished (flow ex_sys1))"
proof -
  have b: "buffered (loadFinished (flow ex_sys1)) = 1"
    by (simp add: ex_sys1_def ex_flow1_def)
  from loadFinished_send_never_blocks [OF ex_reachable1, of ex_file_good] b ex_reachable1
  show ?thesis by auto
qed

subsection \<open>Close\<close>

text \<open>
  C5. In every run of the system, a call of Close first cancels the context. Its
  receive from \<open>exited\<close> is taken only when the event loop has returned (the channel
  is closed by the last deferred call of \<^verbatim>\<open>run\<close>), and its call of the scheduler's
  Close comes after that receive: whenever Scheduler.Close is invoked, the context is
  cancelled and the event loop has exited. The call of Close returns what
  Scheduler.Close returned.
\<close>

theorem Close_after_loop_exit:
  assumes "reachable d opt s" and "step d s a s'"
  shows "(a = CloseCancel i \<longrightarrow>
            closers s ! i = AtCancel \<and> cancelled (flow s') \<and> closers s' ! i = AtRecvExited)
       \<and> (a = CloseRecvExited i \<longrightarrow>
            closers s ! i = AtRecvExited \<and> cancelled (flow s) \<and> loop s = Exited
          \<and> closed (exited (flow s)) \<and> closers s' ! i = AtSchedClose)
       \<and> (a = CloseSchedClose i \<longrightarrow>
            closers s ! i = AtSchedClose \<and> cancelled (flow s) \<and> loop s = Exited
          \<and> closed (exited (flow s))
          \<and> closers s' ! i = Returned (fst (SchedClose d (sched (flow s))))
          \<and> sched (flow s') = snd (SchedClose d (sched (flow s))))
       \<and> (loop s = Running \<longrightarrow> a \<noteq> CloseSchedClose i \<and> a \<noteq> CloseRecvExited i)"
proof -
  have ex: "buffered (exited (flow s)) = 0" "closed (exited (flow s)) \<longleftrightarrow> loop s = Exited"
    "loop s = Exited \<longrightarrow> cancelled (flow s)"
    using reachable_exited [OF assms(1)] by simp_all
  note cl = reachable_closers [OF assms(1)]
  from assms(2) show ?thesis
  proof (cases rule: step.cases)
    case (close_cancel j)
    then show ?thesis by (auto simp: Close_cancel_def)
  next
    case (close_recv_exited j)
    from close_recv_exited(5) ex have "loop s = Exited" "closed (exited (flow s))"
      "cancelled (flow s)"
      by (simp_all add: canRecv_def)
    with close_recv_exited show ?thesis by auto
  next
    case (close_sched_close j err c')
    from close_sched_close(3,4) have "AtSchedClose \<in> set (closers s)"
      using nth_mem by fastforce
    with cl have "cancelled (flow s)" "loop s = Exited" by auto
    with close_sched_close ex Close_schedClose_frame [OF close_sched_close(5)]
    show ?thesis by auto
  qed simp_all
qed

theorem Close_after_loop_exit_witness:
  "reachable ex_deps ex_opts ex_sys_close4
   \<and> step ex_deps ex_sys_close4 (CloseSchedClose 0) ex_sys_close5
   \<and> closers ex_sys_close4 ! 0 = AtSchedClose
   \<and> cancelled (flow ex_sys_close4)
   \<and> loop ex_sys_close4 = Exited
   \<and> closed (exited (flow ex_sys_close4))
   \<and> closers ex_sys_close5 ! 0 = Returned None"
proof -
  have s1: "step ex_deps ex_sys0 CallClose ex_sys_close1"
    using step.call_close [of ex_deps ex_sys0]
    by (simp add: ex_sys0_def ex_sys_close1_def)
  have s2: "step ex_deps ex_sys_close1 (CloseCancel 0) ex_sys_close2"
    using step.close_cancel [of 0 ex_sys_close1 ex_deps]
    by (simp add: ex_sys_close1_def ex_sys_close2_def Close_cancel_def)
  have "run_select ex_deps CtxDone (flow ex_sys_close2)
          = Some (Inr (Exited, flow ex_sys_close3))"
    by (simp add: ex_sys_close2_def ex_sys_close3_def ex_flow0_def closeChan_def makeChan_def)
  from step.select [OF _ _ this]
  have s3: "step ex_deps ex_sys_close2 (Select CtxDone) ex_sys_close3"
    by (simp add: ex_sys_close2_def ex_sys_close3_def)
  have s4: "step ex_deps ex_sys_close3 (CloseRecvExited 0) ex_sys_close4"
    using step.close_recv_exited [of 0 ex_sys_close3 ex_deps]
    by (simp add: ex_sys_close3_def ex_sys_close4_def Close_recvExited_def canRecv_def recv_def)
  have "Close_schedClose ex_deps (flow ex_sys_close4) = (None, flow ex_sys_close4)"
    by (simp add: Close_schedClose_def ex_deps_def ex_sys_close4_def ex_sys_close3_def
        ex_flow0_def NewScheduler_def)
  from step.close_sched_close [OF _ _ this, of 0]
  have s5: "step ex_deps ex_sys_close4 (CloseSchedClose 0) ex_sys_close5"
    by (simp add: ex_sys_close5_def ex_sys_close4_def ex_sys_close3_def)
  have r4: "reachable ex_deps ex_opts ex_sys_close4"
    using ex_reachable0 s1 s2 s3 s4 by (blast intro: reachable.after)
  have sc: "fst (SchedClose ex_deps (sched (flow ex_sys_close4))) = None"
    by (simp add: ex_deps_def)
  from Close_after_loop_exit [OF r4 s5, of 0] r4 s5 sc show ?thesis by simp
qed

subsection \<open>The logger\<close>

lemma run_select_no_nil_logger:
  assumes "log c = Some lg"
  shows "run_select d e c \<noteq> Some (Inl NilLogger)"
proof (cases e)
  case CtxDone
  with assms show ?thesis by simp
next
  case UpdateQueueChan
  let ?c0 = "c\<lparr>updateQueue := (updateQueue c)\<lparr>updateCh := recv (updateCh (updateQueue c))\<rparr>\<rparr>"
  have "drain d ?c0 \<noteq> Some (Inl NilLogger)"
  proof
    assume "drain d ?c0 = Some (Inl NilLogger)"
    from drain_no_panic [OF this] assms show False by simp
  qed
  with UpdateQueueChan show ?thesis
    by (auto split: option.splits sum.splits)
next
  case LoadFinishedChan
  with assms show ?thesis by (simp add: Let_def split: prod.splits)
qed

lemma reachable_log_New:
  assumes "reachable d opt s" and "New d opt = Inr s0"
  shows "log (flow s) = log (flow s0)"
  using assms
proof (induction rule: reachable.induct)
  case (init s)
  then show ?case by simp
next
  case (after s a s')
  then show ?case by (simp add: step_log)
qed

text \<open>
  C10. When the options carry no logger and \<^verbatim>\<open>logging.New(io.Discard,
  logging.DefaultOptions)\<close> succeeds, New returns a controller whose logger is the logger
  so built, with the event loop running. In every state the system reaches from there
  the logger is still that one, and no operation of the controller panics on a nil
  logger: not LoadFile, not an iteration of the event loop, not the handling of a
  dequeued node.
\<close>

theorem New_nil_logger_discard:
  assumes "optLogger opt = None" and "loggingNew d Discard (DefaultOptions d) = Inr lg"
  shows "\<exists>s0. New d opt = Inr s0
       \<and> log (flow s0) = Some lg
       \<and> loop s0 = Running
       \<and> (\<forall>s. reachable d opt s \<longrightarrow>
              log (flow s) = Some lg
            \<and> (\<forall>fl. LoadFile d fl (flow s) \<noteq> Inl NilLogger)
            \<and> (\<forall>e. run_select d e (flow s) \<noteq> Some (Inl NilLogger))
            \<and> (\<forall>n. handleUpdated d n (flow s) \<noteq> Inl NilLogger))"
proof -
  obtain s0 where n: "New d opt = Inr s0" and l0: "log (flow s0) = Some lg"
    and r0: "loop s0 = Running"
    using assms by (simp add: New_def newFlow_def)
  have "\<forall>s. reachable d opt s \<longrightarrow>
              log (flow s) = Some lg
            \<and> (\<forall>fl. LoadFile d fl (flow s) \<noteq> Inl NilLogger)
            \<and> (\<forall>e. run_select d e (flow s) \<noteq> Some (Inl NilLogger))
            \<and> (\<forall>n. handleUpdated d n (flow s) \<noteq> Inl NilLogger)"
  proof (intro allI impI)
    fix s assume "reachable d opt s"
    from reachable_log_New [OF this n] l0 have l: "log (flow s) = Some lg" by simp
    have "\<forall>fl. LoadFile d fl (flow s) \<noteq> Inl NilLogger"
      using LoadFile_returns [OF l] by (metis Inl_Inr_False)
    moreover have "\<forall>e. run_select d e (flow s) \<noteq> Some (Inl NilLogger)"
      using run_select_no_nil_logger [OF l] by blast
    moreover have "\<forall>n. handleUpdated d n (flow s) \<noteq> Inl NilLogger"
      using l by (simp add: handleUpdated_def split: prod.splits)
    ultimately show "log (flow s) = Some lg
            \<and> (\<forall>fl. LoadFile d fl (flow s) \<noteq> Inl NilLogger)
            \<and> (\<forall>e. run_select d e (flow s) \<noteq> Some (Inl NilLogger))
            \<and> (\<forall>n. handleUpdated d n (flow s) \<noteq> Inl NilLogger)"
      using l by blast
  qed
  with n l0 r0 show ?thesis by blast
qed

theorem New_nil_logger_discard_witness:
  "optLogger ex_opts = None
   \<and> loggingNew ex_deps Discard (DefaultOptions ex_deps) = Inr ex_logger
   \<and> New ex_deps ex_opts = Inr ex_sys0
   \<and> writer ex_logger = Discard
   \<and> log (flow ex_sys0) = Some ex_logger
   \<and> loop ex_sys0 = Running
   \<and> reachable ex_deps ex_opts ex_sys1
   \<and> log (flow ex_sys1) = Some ex_logger
   \<and> LoadFile ex_deps ex_file_good (flow ex_sys1) \<noteq> Inl NilLogger"
proof -
  have o: "optLogger ex_opts = None" by (simp add: ex_opts_def)
  have n: "loggingNew ex_deps Discard (DefaultOptions ex_deps) = Inr ex_logger"
    by (simp add: ex_deps_def ex_logger_def)
  have w: "writer ex_logger = Discard" by (simp add: ex_logger_def)
  from New_nil_logger_discard [OF o n] ex_New ex_reachable1 o n w show ?thesis
    by auto
qed

end
